theory Spec2Isabelle
  imports Complex_Main "HOL-Library.Word" "HOL-Library.Log_Nat"
begin

section \<open>VoiceChatLib: data model\<close>

text \<open>
  The library exists in two near-identical variants: \<^verbatim>\<open>src/voice-chat-lib.js\<close> (called
  the \<^emph>\<open>lib\<close> variant below) and \<^verbatim>\<open>unnamed/part_000\<close> (the \<^emph>\<open>part\<close> variant). Where
  the two agree, one definition embeds both; where they differ there is one definition
  per variant. The lib variant also binds two status text nodes (\<^verbatim>\<open>micStatus\<close>,
  \<^verbatim>\<open>micDevice\<close>); the part variant has neither, which is the lib variant with both
  never bound: a session of the part variant has \<open>micStatus = None\<close> and
  \<open>micDevice = None\<close>, and a DOM query made for it carries no status node.

  JavaScript numbers are idealised: a finite number is a \<^typ>\<open>real\<close> (rounding and
  overflow of IEEE doubles are modelled only for the smoothing step, in its own section
  below), and \<open>None\<close> stands for a non-finite
  number (\<^verbatim>\<open>NaN\<close>, \<^verbatim>\<open>Infinity\<close>, \<^verbatim>\<open>-Infinity\<close>). With finite configuration values,
  a non-finite operand makes the result of \<^verbatim>\<open>+\<close>, \<^verbatim>\<open>-\<close>, \<^verbatim>\<open>*\<close> and of a division by a
  finite number non-finite again, and a finite number divided by zero is non-finite;
  that is what the lifted operations below compute.
\<close>

type_synonym u8 = "8 word"
type_synonym jsnum = "real option"

definition jadd :: "jsnum \<Rightarrow> jsnum \<Rightarrow> jsnum" where
  "jadd a b = (case a of None \<Rightarrow> None | Some x \<Rightarrow> (case b of None \<Rightarrow> None | Some y \<Rightarrow> Some (x + y)))"

definition jsub :: "jsnum \<Rightarrow> jsnum \<Rightarrow> jsnum" where
  "jsub a b = (case a of None \<Rightarrow> None | Some x \<Rightarrow> (case b of None \<Rightarrow> None | Some y \<Rightarrow> Some (x - y)))"

definition jmul :: "jsnum \<Rightarrow> jsnum \<Rightarrow> jsnum" where
  "jmul a b = (case a of None \<Rightarrow> None | Some x \<Rightarrow> (case b of None \<Rightarrow> None | Some y \<Rightarrow> Some (x * y)))"

text \<open>Division by a finite divisor: by zero the quotient is \<^verbatim>\<open>NaN\<close> or infinite.\<close>

definition jdiv :: "jsnum \<Rightarrow> real \<Rightarrow> jsnum" where
  "jdiv a d = (case a of None \<Rightarrow> None | Some x \<Rightarrow> (if d = 0 then None else Some (x / d)))"

text \<open>
  A timestamp field is \<^verbatim>\<open>null\<close> or a number; \<^verbatim>\<open>null\<close> counts as 0 in arithmetic and
  both \<^verbatim>\<open>null\<close> and 0 are falsy.
\<close>

definition num_of :: "real option \<Rightarrow> real" where
  "num_of t = (case t of None \<Rightarrow> 0 | Some x \<Rightarrow> x)"

definition falsy :: "real option \<Rightarrow> bool" where
  "falsy t = (case t of None \<Rightarrow> True | Some x \<Rightarrow> x = 0)"

text \<open>
  \<^verbatim>\<open>x.toFixed(d)\<close> followed by \<^verbatim>\<open>parseFloat\<close>, for \<open>d\<close> = 0, 1, 2: the sign is set
  aside, and of the numbers with \<open>d\<close> decimals the one nearest to \<open>|x|\<close> is taken,
  the larger one on a tie.
\<close>

definition toFixed0 :: "real \<Rightarrow> real" where
  "toFixed0 x = (if x < 0 then - of_int \<lfloor>- x + 1 / 2\<rfloor> else of_int \<lfloor>x + 1 / 2\<rfloor>)"


definition toFixed2 :: "real \<Rightarrow> real" where
  "toFixed2 x =
     (if x < 0 then - (of_int \<lfloor>- x * 100 + 1 / 2\<rfloor> / 100) else of_int \<lfloor>x * 100 + 1 / 2\<rfloor> / 100)"

subsection \<open>Configuration\<close>

record config =
  amplitudeSmoothFactorVar :: real
  baseRotationDivisor :: real
  dynamicLerpMin :: real
  dynamicLerpAudioMultiplier :: real
  maxAdditionalRotation :: real
  baseScaleMultiplier :: real

definition default_config :: config where
  "default_config =
     \<lparr> amplitudeSmoothFactorVar = 3 / 10,
       baseRotationDivisor = 16,
       dynamicLerpMin = 5 / 100,
       dynamicLerpAudioMultiplier = 1 / 2,
       maxAdditionalRotation = 360,
       baseScaleMultiplier = 2 \<rparr>"

definition MAX_DELTA :: real where
  "MAX_DELTA = 100"

subsection \<open>Visual elements, buttons, tracks, recorder\<close>

text \<open>
  A voice element is a DOM node on which the library hangs its per-element state. The
  \<^verbatim>\<open>dataset\<close> attributes are absent (\<open>None\<close>) until the element is initialised;
  \<^verbatim>\<open>parseFloat\<close> of an absent attribute is \<^verbatim>\<open>NaN\<close>, which is \<open>None\<close> as a \<^typ>\<open>jsnum\<close>,
  and so is arithmetic on an \<^verbatim>\<open>undefined\<close> \<^verbatim>\<open>currentRotation\<close>. The \<^verbatim>\<open>style.transform\<close>
  string written each frame is a rendering of \<open>currentRotation\<close> and \<open>currentScale\<close>
  and is not kept.
\<close>

record element =
  initialized :: bool
  dataset_offset :: "real option"
  dataset_speed :: "real option"
  dataset_scaleMultiplier :: "real option"
  transformOrigin :: "(real \<times> real) option"
  currentRotation :: jsnum
  currentScale :: jsnum

record button =
  disabled :: bool
  is_on :: bool
  is_off :: bool

record track =
  enabled :: bool
  stopped :: bool
  label :: string

datatype ctx_state = Running | Closed

datatype rec_state = Inactive | Recording | Paused

datatype rec_call = CallStart | CallPause | CallResume | CallStop

text \<open>
  The host's MediaRecorder. \<open>calls\<close> logs every method the library invokes on it,
  with the recorder state at the moment of the invocation.
\<close>

record recorder =
  rstate :: rec_state
  calls :: "(rec_call \<times> rec_state) list"
  onstop_set :: bool

definition rec_start :: "recorder \<Rightarrow> recorder" where
  "rec_start r = r\<lparr> rstate := Recording, calls := calls r @ [(CallStart, rstate r)] \<rparr>"

definition rec_pause :: "recorder \<Rightarrow> recorder" where
  "rec_pause r =
     r\<lparr> rstate := (if rstate r = Recording then Paused else rstate r),
        calls := calls r @ [(CallPause, rstate r)] \<rparr>"

definition rec_resume :: "recorder \<Rightarrow> recorder" where
  "rec_resume r =
     r\<lparr> rstate := (if rstate r = Paused then Recording else rstate r),
        calls := calls r @ [(CallResume, rstate r)] \<rparr>"


subsection \<open>Notifications\<close>

type_synonym blob = "u8 list"

datatype error = ReadError | ContextError | DecodeError

record analysis =
  isMostlySilence :: bool
  avgAmplitude :: jsnum

record audio_meta =
  duration :: real
  durationReadable :: "(int \<times> int) option"
  size_bytes :: nat
  sizeReadable :: "(real \<times> string) option"
  mimeType :: string

record end_event =
  timestamp :: nat
  details :: string
  audioBlob :: "blob option"
  audioMeta :: "audio_meta option"
  audioBinary :: "blob option"
  audioBase64 :: "string option"
  fileName :: "string option"
  analysis_field :: "(error + analysis) option"

datatype notification =
    StartEvent nat string "bool option" "string option"
  | ToggleMicEvent nat bool string
  | EndEvent end_event

text \<open>
  A notification is delivered by calling an assignable callback field, guarded by
  \<^verbatim>\<open>typeof cb === "function"\<close>; the flag says whether a function is assigned.
\<close>

definition fire :: "bool \<Rightarrow> notification \<Rightarrow> notification list" where
  "fire cb n = (if cb then [n] else [])"

subsection \<open>The session\<close>

text \<open>
  \<open>nodes\<close> is the store of DOM nodes, addressed by node id: \<open>voiceEls\<close> holds
  references into it, so that a node reached twice is one object. The control buttons
  and the status nodes are kept with what the library writes on them: for a button its
  \<^verbatim>\<open>disabled\<close> flag and the two CSS classes, for a status node its text; \<open>None\<close>
  is \<^verbatim>\<open>null\<close>, no node bound.
\<close>

record session =
  config :: config
  audioStream :: "track list option"
  audioContext :: "ctx_state option"
  analyser :: bool
  microphone :: bool
  animationId :: "nat option"
  isMicOn :: bool
  smoothedAmplitude :: jsnum
  startTime :: "real option"
  lastFrameTime :: "real option"
  voiceEls :: "nat list"
  toggleBtn :: "button option"
  endBtn :: "button option"
  micStatus :: "string option"
  micDevice :: "string option"
  elementsBound :: bool
  audioStarted :: bool
  domObserver :: bool
  mediaRecorder :: "recorder option"
  recordedChunks :: "blob list"
  onStart :: bool
  onToggle :: bool
  onEnd :: bool
  toggleBtnBound :: bool
  endBtnBound :: bool
  nodes :: "nat \<Rightarrow> element"

text \<open>The constructor, for a given configuration and DOM.\<close>

definition VoiceChat :: "config \<Rightarrow> (nat \<Rightarrow> element) \<Rightarrow> session" where
  "VoiceChat cfg page =
     \<lparr> config = cfg, audioStream = None, audioContext = None, analyser = False,
       microphone = False, animationId = None, isMicOn = True,
       smoothedAmplitude = Some 0, startTime = None, lastFrameTime = None,
       voiceEls = [], toggleBtn = None, endBtn = None, micStatus = None,
       micDevice = None, elementsBound = False,
       audioStarted = False, domObserver = False, mediaRecorder = None,
       recordedChunks = [], onStart = False, onToggle = False, onEnd = False,
       toggleBtnBound = False, endBtnBound = False, nodes = page \<rparr>"

section \<open>Amplitude sampler and motion mapper: \<^verbatim>\<open>updateAnimation\<close>\<close>

definition lerp :: "jsnum \<Rightarrow> jsnum \<Rightarrow> jsnum \<Rightarrow> jsnum" where
  "lerp start end' factor = jadd start (jmul factor (jsub end' start))"

text \<open>The loop \<^verbatim>\<open>for (i ...) sum += Math.abs(dataArray[i] - 128)\<close>.\<close>

fun sample_sum :: "real \<Rightarrow> u8 list \<Rightarrow> real" where
  "sample_sum acc [] = acc"
| "sample_sum acc (x # xs) = sample_sum (acc + \<bar>real (unat x) - 128\<bar>) xs"

definition amplitudeNormalized :: "u8 list \<Rightarrow> jsnum" where
  "amplitudeNormalized dataArray =
     (let acc = sample_sum 0 dataArray;
          average = jdiv (Some acc) (real (length dataArray))
      in jdiv average 128)"

text \<open>The body of \<^verbatim>\<open>voiceEls.forEach\<close>, on the node store.\<close>

definition animate_el :: "config \<Rightarrow> jsnum \<Rightarrow> real \<Rightarrow> jsnum \<Rightarrow> (nat \<Rightarrow> element) \<Rightarrow> nat \<Rightarrow> (nat \<Rightarrow> element)" where
  "animate_el cfg smoothed effectiveTime dynamicLerpFactor store r =
     (let el = store r;
          offset = dataset_offset el;
          speed = dataset_speed el;
          scaleMultiplier = dataset_scaleMultiplier el;
          baseRotation = jadd offset (jdiv (jmul (Some effectiveTime) speed) (baseRotationDivisor cfg));
          additionalRotation = jmul smoothed (Some (maxAdditionalRotation cfg));
          targetRotation = jadd baseRotation additionalRotation;
          targetScale = jadd (Some 1) (jmul (jmul smoothed scaleMultiplier) (Some (baseScaleMultiplier cfg)));
          el1 = el\<lparr> currentRotation := lerp (currentRotation el) targetRotation dynamicLerpFactor \<rparr>;
          el2 = el1\<lparr> currentScale := lerp (currentScale el1) targetScale dynamicLerpFactor \<rparr>
      in store(r := el2))"

text \<open>
  One animation frame. \<open>now\<close> is \<^verbatim>\<open>performance.now()\<close>, \<open>dataArray\<close> the buffer the
  analyser fills, \<open>raf\<close> the id \<^verbatim>\<open>requestAnimationFrame\<close> returns.
\<close>

definition updateAnimation :: "session \<Rightarrow> real \<Rightarrow> u8 list \<Rightarrow> nat \<Rightarrow> session" where
  "updateAnimation s now dataArray raf =
     (if \<not> analyser s then s
      else
        let s1 = (if falsy (lastFrameTime s) then s\<lparr> lastFrameTime := Some now, startTime := Some now \<rparr> else s);
            delta = now - num_of (lastFrameTime s1);
            s2 = (if delta > MAX_DELTA then s1\<lparr> startTime := Some now \<rparr> else s1);
            s3 = s2\<lparr> lastFrameTime := Some now \<rparr>;
            a = amplitudeSmoothFactorVar (config s3);
            s4 = s3\<lparr> smoothedAmplitude :=
                     jadd (jmul (smoothedAmplitude s3) (Some (1 - a)))
                          (jmul (amplitudeNormalized dataArray) (Some a)) \<rparr>;
            effectiveTime = now - num_of (startTime s4);
            dynamicLerpFactor =
              jadd (Some (dynamicLerpMin (config s4)))
                   (jmul (smoothedAmplitude s4) (Some (dynamicLerpAudioMultiplier (config s4))));
            s5 = s4\<lparr> nodes := foldl (animate_el (config s4) (smoothedAmplitude s4) effectiveTime dynamicLerpFactor)
                                     (nodes s4) (voiceEls s4) \<rparr>
        in s5\<lparr> animationId := Some raf \<rparr>)"

text \<open>
  The animation loop: the host calls \<^verbatim>\<open>updateAnimation\<close> again for every frame that
  was requested, each time with a new clock reading and a new buffer.
\<close>

fun animation_loop :: "session \<Rightarrow> (real \<times> u8 list \<times> nat) list \<Rightarrow> session" where
  "animation_loop s [] = s"
| "animation_loop s ((now, dataArray, raf) # frames) =
     animation_loop (updateAnimation s now dataArray raf) frames"

section \<open>DOM binding: \<^verbatim>\<open>initElements\<close>\<close>

text \<open>
  What the selector lookups of \<^verbatim>\<open>initElements\<close> return: the two control buttons (if
  present), the status nodes of the lib variant with their current text (if present;
  the part variant looks neither up), and the references of the voice elements
  currently in the page.
\<close>

record dom_query =
  q_toggleBtn :: "button option"
  q_endBtn :: "button option"
  q_micStatus :: "string option"
  q_micDevice :: "string option"
  q_voiceEls :: "nat list"

definition statusText :: "bool \<Rightarrow> string" where
  "statusText micOn = (if micOn then ''Turn off microphone'' else ''Turn on microphone'')"

definition updateMicDisplay :: "session \<Rightarrow> session" where
  "updateMicDisplay s =
     s\<lparr> toggleBtn := map_option (\<lambda>b. b\<lparr> is_on := isMicOn s, is_off := \<not> isMicOn s \<rparr>) (toggleBtn s),
        micStatus := map_option (\<lambda>_. statusText (isMicOn s)) (micStatus s) \<rparr>"

text \<open>
  The body of \<^verbatim>\<open>if (!el.initialized) { ... }\<close>. \<open>rnd k\<close>, ..., \<open>rnd (k + 4)\<close> are the
  five values \<^verbatim>\<open>Math.random()\<close> returns, in call order.
\<close>

definition init_el :: "session \<Rightarrow> real \<Rightarrow> (nat \<Rightarrow> real) \<Rightarrow> nat \<Rightarrow> element \<Rightarrow> element" where
  "init_el s now rnd k el =
     (let offset = toFixed0 (rnd k * 360);
          speed = toFixed2 (1 + rnd (k + 1) * 2);
          scaleMultiplier = toFixed2 (1 + rnd (k + 2) * (3 / 2));
          originX = toFixed0 (45 + rnd (k + 3) * 10);
          originY = toFixed0 (45 + rnd (k + 4) * 10);
          el1 = el\<lparr> dataset_offset := Some offset, dataset_speed := Some speed,
                    dataset_scaleMultiplier := Some scaleMultiplier,
                    transformOrigin := Some (originX, originY) \<rparr>;
          el2 =
            (if audioStarted s \<and> startTime s \<noteq> None then
               let effectiveTime = now - num_of (startTime s);
                   baseRot = jadd (Some offset) (jdiv (Some (effectiveTime * speed)) (baseRotationDivisor (config s)));
                   addRot = jmul (smoothedAmplitude s) (Some (maxAdditionalRotation (config s)));
                   tarScale = jadd (Some 1)
                     (jmul (jmul (smoothedAmplitude s) (Some scaleMultiplier)) (Some (baseScaleMultiplier (config s))))
               in el1\<lparr> currentRotation := jadd baseRot addRot, currentScale := tarScale \<rparr>
             else el1\<lparr> currentRotation := Some 0, currentScale := Some 1 \<rparr>)
      in el2\<lparr> initialized := True \<rparr>)"

text \<open>The loop over \<^verbatim>\<open>this.voiceEls\<close>; \<open>k\<close> counts the random numbers drawn so far.\<close>

fun init_loop :: "session \<Rightarrow> real \<Rightarrow> (nat \<Rightarrow> real) \<Rightarrow> nat \<Rightarrow> (nat \<Rightarrow> element) \<Rightarrow> nat list \<Rightarrow> (nat \<Rightarrow> element)" where
  "init_loop s now rnd k store [] = store"
| "init_loop s now rnd k store (r # rs) =
     (if \<not> initialized (store r)
      then init_loop s now rnd (k + 5) (store(r := init_el s now rnd k (store r))) rs
      else init_loop s now rnd k store rs)"

definition initElements :: "session \<Rightarrow> dom_query \<Rightarrow> real \<Rightarrow> (nat \<Rightarrow> real) \<Rightarrow> session" where
  "initElements s q now rnd =
     (let s1 = s\<lparr> toggleBtn := q_toggleBtn q, endBtn := q_endBtn q,
                  micStatus := q_micStatus q, micDevice := q_micDevice q,
                  voiceEls := q_voiceEls q \<rparr>;
          s2 = s1\<lparr> nodes := init_loop s1 now rnd 0 (nodes s1) (voiceEls s1) \<rparr>;
          s3 = (if toggleBtn s2 \<noteq> None \<and> \<not> toggleBtnBound s2 then s2\<lparr> toggleBtnBound := True \<rparr> else s2);
          s4 = (if endBtn s3 \<noteq> None \<and> \<not> endBtnBound s3 then s3\<lparr> endBtnBound := True \<rparr> else s3);
          s5 = updateMicDisplay s4
      in s5\<lparr> elementsBound := True \<rparr>)"

definition observeDOM :: "session \<Rightarrow> session" where
  "observeDOM s = (if \<not> domObserver s then s\<lparr> domObserver := True \<rparr> else s)"

section \<open>Session lifecycle\<close>

subsection \<open>\<^verbatim>\<open>initAudio\<close> and \<^verbatim>\<open>start\<close>\<close>

text \<open>What the host offers when the library tries to record.\<close>

datatype recorder_capability = NoMediaRecorder | ConstructorThrows | StartThrows | RecorderOk

definition micDeviceText :: "track list \<Rightarrow> string" where
  "micDeviceText stream =
     (case stream of
        [] \<Rightarrow> ''Communications - Microphone (unknown)''
      | t # _ \<Rightarrow> (if label t \<noteq> [] then ''Communications - '' @ label t
                  else ''Communications - Microphone (unknown)''))"

definition micLabel :: "track list \<Rightarrow> string" where
  "micLabel stream =
     (case stream of [] \<Rightarrow> ''(unknown)'' | t # _ \<Rightarrow> (if label t \<noteq> [] then label t else ''(unknown)''))"

text \<open>
  The continuation of \<^verbatim>\<open>getUserMedia\<close> when access to the microphone is granted:
  \<open>stream\<close> are the audio tracks of the stream, \<open>t0\<close> the first clock reading, and
  \<open>now\<close>, \<open>dataArray\<close>, \<open>raf\<close> the inputs of the first animation frame. When access is
  denied the session is left as it is. The lib variant writes the device label on its
  \<^verbatim>\<open>micDevice\<close> node; when that node is not bound and the track has a label it writes
  on whatever node \<^verbatim>\<open>document.getElementById("micDevice")\<close> finds, a node the session
  does not hold and which is not kept here.
\<close>

definition initAudio_granted :: "session \<Rightarrow> track list \<Rightarrow> real \<Rightarrow> real \<Rightarrow> u8 list \<Rightarrow> nat \<Rightarrow> recorder_capability \<Rightarrow> session" where
  "initAudio_granted s stream t0 now dataArray raf cap =
     (let s0 = s\<lparr> audioStream := Some stream, audioContext := Some Running,
                  microphone := True, analyser := True \<rparr>;
          s1 = s0\<lparr> micDevice := map_option (\<lambda>_. micDeviceText stream) (micDevice s0) \<rparr>;
          s2 = updateMicDisplay s1;
          s3 = s2\<lparr> startTime := Some t0, lastFrameTime := Some t0 \<rparr>;
          s4 = updateAnimation s3 now dataArray raf;
          s5 = s4\<lparr> audioStarted := True \<rparr>
      in case cap of
           NoMediaRecorder \<Rightarrow> s5
         | ConstructorThrows \<Rightarrow> s5\<lparr> recordedChunks := [] \<rparr>
         | StartThrows \<Rightarrow>
             s5\<lparr> recordedChunks := [],
                 mediaRecorder := Some \<lparr> rstate = Inactive, calls = [(CallStart, Inactive)], onstop_set = False \<rparr> \<rparr>
         | RecorderOk \<Rightarrow>
             s5\<lparr> recordedChunks := [],
                 mediaRecorder := Some (rec_start \<lparr> rstate = Inactive, calls = [], onstop_set = False \<rparr>) \<rparr>)"

definition onStart_lib :: "session \<Rightarrow> nat \<Rightarrow> notification list" where
  "onStart_lib s ts =
     fire (onStart s) (StartEvent ts ''VoiceChat audio and recording successfully started'' None None)"

definition onStart_part :: "session \<Rightarrow> track list \<Rightarrow> nat \<Rightarrow> notification list" where
  "onStart_part s stream ts =
     fire (onStart s)
       (StartEvent ts ''VoiceChat audio and recording successfully started''
          (Some (isMicOn s)) (Some (micLabel stream)))"


text \<open>
  \<^verbatim>\<open>start()\<close>: the returned flag says whether \<^verbatim>\<open>initAudio\<close> is called, that is
  whether microphone access is requested.
\<close>

definition start :: "session \<Rightarrow> dom_query \<Rightarrow> real \<Rightarrow> (nat \<Rightarrow> real) \<Rightarrow> session \<times> bool" where
  "start s q now rnd =
     (let s1 = observeDOM s;
          s2 = initElements s1 q now rnd
      in (s2, \<not> audioStarted s2))"

subsection \<open>\<^verbatim>\<open>toggleMic\<close>\<close>

definition set_enabled :: "bool \<Rightarrow> track list \<Rightarrow> track list" where
  "set_enabled b tracks = map (\<lambda>t. t\<lparr> enabled := b \<rparr>) tracks"

definition toggleMic :: "session \<Rightarrow> nat \<Rightarrow> session \<times> notification list" where
  "toggleMic s ts =
     (let s1 =
            (case mediaRecorder s of
               Some r \<Rightarrow>
                 (if isMicOn s then
                    s\<lparr> mediaRecorder := Some (if rstate r = Recording then rec_pause r else r),
                       isMicOn := False,
                       audioStream := map_option (set_enabled False) (audioStream s) \<rparr>
                  else
                    s\<lparr> mediaRecorder := Some (if rstate r = Paused then rec_resume r else r),
                       isMicOn := True,
                       audioStream := map_option (set_enabled True) (audioStream s) \<rparr>)
             | None \<Rightarrow>
                 (case audioStream s of
                    Some tracks \<Rightarrow>
                      (if length tracks > 0
                       then s\<lparr> isMicOn := \<not> isMicOn s,
                               audioStream := Some (set_enabled (\<not> isMicOn s) tracks) \<rparr>
                       else s)
                  | None \<Rightarrow> s));
          s2 = updateMicDisplay s1
      in (s2, fire (onToggle s2) (ToggleMicEvent ts (isMicOn s2) ''Microphone toggled'')))"

subsection \<open>Post-session analyzer: \<^verbatim>\<open>analyzeAudio\<close> (part variant only)\<close>

text \<open>A decoded clip has at least one channel.\<close>

datatype audio_buffer = AudioBuffer (channel0: "real list") (other_channels: "real list list")

text \<open>
  The host's asynchronous capabilities, each with its outcome: reading a blob into an
  array buffer or a data URL, constructing an offline audio context for a buffer of a
  given byte length (\<open>Some e\<close>: the constructor throws \<open>e\<close>), and decoding.
\<close>

record audio_host =
  readAsArrayBuffer :: "blob \<Rightarrow> error + blob"
  readAsDataURL :: "blob \<Rightarrow> error + string"
  newOfflineContext :: "nat \<Rightarrow> error option"
  decodeAudioData :: "blob \<Rightarrow> error + audio_buffer"

text \<open>The loop \<^verbatim>\<open>for (i ...) sum += Math.abs(channelData[i])\<close>.\<close>

fun channel_sum :: "real \<Rightarrow> real list \<Rightarrow> real" where
  "channel_sum acc [] = acc"
| "channel_sum acc (x # xs) = channel_sum (acc + \<bar>x\<bar>) xs"

text \<open>
  The promise \<^verbatim>\<open>analyzeAudio\<close> returns: \<open>Inl\<close> when it is rejected, \<open>Inr\<close> when it is
  resolved. \<^verbatim>\<open>NaN < 0.02\<close> is false.
\<close>

definition analyzeAudio :: "audio_host \<Rightarrow> blob \<Rightarrow> error + analysis" where
  "analyzeAudio h blob' =
     (case readAsArrayBuffer h blob' of
        Inl err \<Rightarrow> Inl err
      | Inr arrayBuffer \<Rightarrow>
          (case newOfflineContext h (length arrayBuffer) of
             Some err \<Rightarrow> Inl err
           | None \<Rightarrow>
               (case decodeAudioData h arrayBuffer of
                  Inl err \<Rightarrow> Inl err
                | Inr audioBuffer \<Rightarrow>
                    let channelData = channel0 audioBuffer;
                        acc = channel_sum 0 channelData;
                        avg = jdiv (Some acc) (real (length channelData));
                        silent = (case avg of None \<Rightarrow> False | Some a \<Rightarrow> a < 2 / 100)
                    in Inr \<lparr> isMostlySilence = silent, avgAmplitude = avg \<rparr>)))"

subsection \<open>\<^verbatim>\<open>end\<close>\<close>


definition set_disabled :: "bool \<Rightarrow> button \<Rightarrow> button" where
  "set_disabled b btn = btn\<lparr> disabled := b \<rparr>"








subsection \<open>\<^verbatim>\<open>reset\<close>\<close>

text \<open>
  \<^verbatim>\<open>if (this.animationId)\<close>: an id of 0 is falsy. A stream or audio context that is
  released is stopped or closed on the host and then forgotten by the session; a
  recorder is stopped and forgotten only when it is not inactive.
\<close>

definition reset_common :: "session \<Rightarrow> session" where
  "reset_common s =
     (let s1 = (if animationId s \<noteq> None \<and> animationId s \<noteq> Some 0 then s\<lparr> animationId := None \<rparr> else s);
          s2 = (if audioStream s1 \<noteq> None then s1\<lparr> audioStream := None \<rparr> else s1);
          s3 = (if audioContext s2 \<noteq> None then s2\<lparr> audioContext := None \<rparr> else s2);
          s4 = (case mediaRecorder s3 of
                  None \<Rightarrow> s3
                | Some r \<Rightarrow> (if rstate r \<noteq> Inactive then s3\<lparr> mediaRecorder := None \<rparr> else s3));
          s5 = s4\<lparr> recordedChunks := [], startTime := None, lastFrameTime := None,
                  audioStarted := False, isMicOn := True \<rparr>
      in s5\<lparr> toggleBtn := map_option (set_disabled False) (toggleBtn s5),
              endBtn := map_option (set_disabled False) (endBtn s5) \<rparr>)"

definition reset_lib :: "session \<Rightarrow> session" where
  "reset_lib s =
     (let s1 = reset_common s
      in s1\<lparr> micStatus := map_option (\<lambda>_. ''Turn off microphone'') (micStatus s1),
             micDevice := map_option (\<lambda>_. []) (micDevice s1) \<rparr>)"

definition reset_part :: "session \<Rightarrow> session" where
  "reset_part s =
     (let s1 = reset_common s;
          s2 = (if toggleBtn s1 \<noteq> None \<and> toggleBtnBound s1 then s1\<lparr> toggleBtnBound := False \<rparr> else s1);
          s3 = (if endBtn s2 \<noteq> None \<and> endBtnBound s2 then s2\<lparr> endBtnBound := False \<rparr> else s2)
      in s3\<lparr> toggleBtn := None, endBtn := None, voiceEls := [], elementsBound := False \<rparr>)"

section \<open>The smoothing step in IEEE double arithmetic\<close>

text \<open>
  The engine computes with IEEE-754 binary64 numbers: every operation returns the double
  nearest to the exact result, the one with the even significand on a tie, and
  \<^verbatim>\<open>Infinity\<close> when that has magnitude \<open>2^1024\<close> or more. For the formulas above this
  only rounds the values; for a bound on the smoothed amplitude the roundings matter.
  So the expression that \<^verbatim>\<open>updateAnimation\<close> assigns to \<^verbatim>\<open>smoothedAmplitude\<close> is given a
  second time here, with every operation rounded.

  \<open>ulp_exp x\<close> is the exponent of the spacing of the doubles around \<open>x\<close>: \<open>e - 52\<close>
  for \<open>2^e \<le> |x| < 2^(e+1)\<close>, and \<open>-1074\<close> below \<open>2^-1022\<close> (the subnormal numbers).
  \<open>round_even\<close> rounds to the nearest integer, to the even one on a tie, and \<open>fl x\<close>
  is the double nearest to \<open>x\<close>.
\<close>

definition round_even :: "real \<Rightarrow> int" where
  "round_even x =
     (let f = \<lfloor>x\<rfloor>; d = x - of_int f
      in if d < 1 / 2 then f else if 1 / 2 < d then f + 1 else if even f then f else f + 1)"

definition subnormal_scale :: real where
  "subnormal_scale = 2 ^ 1074"

definition overflow_bound :: real where
  "overflow_bound = 2 ^ 1024"

definition ulp_exp :: "real \<Rightarrow> int" where
  "ulp_exp x =
     (let y = \<bar>x\<bar> * subnormal_scale
      in if y < 2 ^ 52 then - 1074 else int (floorlog 2 (nat \<lfloor>y\<rfloor>)) - 1127)"

definition fl :: "real \<Rightarrow> jsnum" where
  "fl x =
     (let k = ulp_exp x;
          r = of_int (round_even (x / 2 powi k)) * 2 powi k
      in if overflow_bound \<le> \<bar>r\<bar> then None else Some r)"

text \<open>Addition, subtraction and multiplication of doubles.\<close>

definition dadd :: "jsnum \<Rightarrow> jsnum \<Rightarrow> jsnum" where
  "dadd a b = (case a of None \<Rightarrow> None | Some x \<Rightarrow> (case b of None \<Rightarrow> None | Some y \<Rightarrow> fl (x + y)))"

definition dsub :: "jsnum \<Rightarrow> jsnum \<Rightarrow> jsnum" where
  "dsub a b = (case a of None \<Rightarrow> None | Some x \<Rightarrow> (case b of None \<Rightarrow> None | Some y \<Rightarrow> fl (x - y)))"

definition dmul :: "jsnum \<Rightarrow> jsnum \<Rightarrow> jsnum" where
  "dmul a b = (case a of None \<Rightarrow> None | Some x \<Rightarrow> (case b of None \<Rightarrow> None | Some y \<Rightarrow> fl (x * y)))"

text \<open>
  \<^verbatim>\<open>smoothedAmplitude * (1 - a) + amplitudeNormalized * a\<close> in double arithmetic,
  and its repetition over the normalized inputs of successive frames.
\<close>

definition smoothing_double :: "real \<Rightarrow> jsnum \<Rightarrow> jsnum \<Rightarrow> jsnum" where
  "smoothing_double a smoothed normalized =
     dadd (dmul smoothed (dsub (Some 1) (Some a))) (dmul normalized (Some a))"

definition smoothing_run_double :: "real \<Rightarrow> jsnum \<Rightarrow> real list \<Rightarrow> jsnum" where
  "smoothing_run_double a smoothed inputs = foldl (smoothing_double a) smoothed (map Some inputs)"

section \<open>Example inputs\<close>

text \<open>
  A page of fresh DOM nodes, a microphone track, and the session the constructor
  builds with the default configuration.
\<close>

definition el0 :: element where
  "el0 = \<lparr> initialized = False, dataset_offset = None, dataset_speed = None,
            dataset_scaleMultiplier = None, transformOrigin = None,
            currentRotation = None, currentScale = None \<rparr>"

definition page0 :: "nat \<Rightarrow> element" where
  "page0 = (\<lambda>_. el0)"

definition mic0 :: track where
  "mic0 = \<lparr> enabled = True, stopped = False, label = ''Mic'' \<rparr>"

definition idle0 :: session where
  "idle0 = VoiceChat default_config page0"

definition el1 :: element where
  "el1 = \<lparr> initialized = True, dataset_offset = Some 10, dataset_speed = Some 2,
            dataset_scaleMultiplier = Some (3 / 2), transformOrigin = Some (50, 50),
            currentRotation = Some 0, currentScale = Some 1 \<rparr>"

definition query0 :: dom_query where
  "query0 = \<lparr> q_toggleBtn = None, q_endBtn = None, q_micStatus = None, q_micDevice = None,
               q_voiceEls = [0, 2] \<rparr>"

definition capturing0 :: session where
  "capturing0 = idle0\<lparr> analyser := True, audioStarted := True, startTime := Some 0,
                       lastFrameTime := Some 8, voiceEls := [2], nodes := page0(2 := el1) \<rparr>"

definition query1 :: dom_query where
  "query1 = \<lparr> q_toggleBtn = None, q_endBtn = None, q_micStatus = None, q_micDevice = None,
               q_voiceEls = [0] \<rparr>"

definition recording0 :: session where
  "recording0 = initAudio_granted (idle0\<lparr> onEnd := True \<rparr>) [mic0] 0 0 [128, 128] 7 RecorderOk"

definition btn0 :: button where
  "btn0 = \<lparr> disabled = False, is_on = False, is_off = False \<rparr>"


definition host_half :: audio_host where
  "host_half = \<lparr> readAsArrayBuffer = (\<lambda>b. Inr b),
                  readAsDataURL = (\<lambda>b. Inr ''data:audio/webm;base64,AQID''),
                  newOfflineContext = (\<lambda>n. None),
                  decodeAudioData = (\<lambda>b. Inr (AudioBuffer [1 / 2, - (1 / 2), 1 / 2, - (1 / 2)] [])) \<rparr>"

section \<open>Properties\<close>

subsection \<open>Amplitude sampler\<close>

lemma sample_sum_acc: "sample_sum a xs = a + (\<Sum>x\<leftarrow>xs. \<bar>real (unat x) - 128\<bar>)"
  by (induction xs arbitrary: a) simp_all

lemma amplitudeNormalized_nonempty:
  "dataArray \<noteq> [] \<Longrightarrow>
   amplitudeNormalized dataArray =
     Some ((\<Sum>x\<leftarrow>dataArray. \<bar>real (unat x) - 128\<bar>) / real (length dataArray) / 128)"
  by (simp add: amplitudeNormalized_def jdiv_def sample_sum_acc)

lemma smoothed_updateAnimation:
  "analyser s \<Longrightarrow>
   smoothedAmplitude (updateAnimation s now dataArray raf) =
     jadd (jmul (smoothedAmplitude s) (Some (1 - amplitudeSmoothFactorVar (config s))))
          (jmul (amplitudeNormalized dataArray) (Some (amplitudeSmoothFactorVar (config s))))"
  by (simp add: updateAnimation_def Let_def)

lemma sample_abs_le: "\<bar>real (unat (x::u8)) - 128\<bar> \<le> 128"
proof -
  have "unat x < 2 ^ LENGTH(8)" by (rule unsigned_less)
  then have "unat x < 256" by simp
  then have "real (unat x) < 256" by linarith
  moreover have "0 \<le> real (unat x)" by (rule of_nat_0_le_iff)
  ultimately show ?thesis by linarith
qed

lemma sample_sum_list_bounds:
  "0 \<le> (\<Sum>x\<leftarrow>d. \<bar>real (unat (x::u8)) - 128\<bar>) \<and>
   (\<Sum>x\<leftarrow>d. \<bar>real (unat x) - 128\<bar>) \<le> 128 * real (length d)"
proof (induction d)
  case Nil
  show ?case by simp
next
  case (Cons x d)
  then show ?case using sample_abs_le [of x] by (simp add: algebra_simps)
qed

lemma amplitudeNormalized_range:
  assumes "dataArray \<noteq> []"
  shows "\<exists>n. amplitudeNormalized dataArray = Some n \<and> 0 \<le> n \<and> n \<le> 1"
proof -
  let ?t = "(\<Sum>x\<leftarrow>dataArray. \<bar>real (unat x) - 128\<bar>)"
  have len: "0 < real (length dataArray)" using assms by simp
  have b: "0 \<le> ?t" "?t \<le> 128 * real (length dataArray)"
    using sample_sum_list_bounds [of dataArray] by simp_all
  have "?t / real (length dataArray) \<le> 128"
    using b(2) len by (simp add: pos_divide_le_eq)
  moreover have "0 \<le> ?t / real (length dataArray)"
    using b(1) by simp
  ultimately show ?thesis
    using amplitudeNormalized_nonempty [OF assms] by simp
qed

lemma mix_between:
  fixes p n a :: real
  assumes "0 \<le> a" "a \<le> 1"
  shows "min p n \<le> p * (1 - a) + n * a" and "p * (1 - a) + n * a \<le> max p n"
proof -
  have e1: "p * (1 - a) + n * a = p + a * (n - p)" by (simp add: algebra_simps)
  have e2: "p * (1 - a) + n * a = n - (1 - a) * (n - p)" by (simp add: algebra_simps)
  show "min p n \<le> p * (1 - a) + n * a"
  proof (cases "p \<le> n")
    case True
    then have "0 \<le> a * (n - p)" using assms by simp
    with True show ?thesis by (simp add: e1)
  next
    case False
    then have "(1 - a) * (n - p) \<le> 0" using assms by (simp add: mult_nonneg_nonpos)
    with False show ?thesis by (simp add: e2)
  qed
  show "p * (1 - a) + n * a \<le> max p n"
  proof (cases "p \<le> n")
    case True
    then have "0 \<le> (1 - a) * (n - p)" using assms by simp
    with True show ?thesis by (simp add: e2)
  next
    case False
    then have "a * (n - p) \<le> 0" using assms by (simp add: mult_nonneg_nonpos)
    with False show ?thesis by (simp add: e1)
  qed
qed

lemma config_updateAnimation [simp]: "config (updateAnimation s now d raf) = config s"
  by (simp add: updateAnimation_def Let_def)

lemma analyser_updateAnimation [simp]: "analyser (updateAnimation s now d raf) = analyser s"
  by (simp add: updateAnimation_def Let_def)

lemma smoothed_step_range:
  assumes a: "0 \<le> amplitudeSmoothFactorVar (config s)" "amplitudeSmoothFactorVar (config s) \<le> 1"
      and d: "dataArray \<noteq> []"
      and p: "smoothedAmplitude s = Some p" "0 \<le> p" "p \<le> 1"
  shows "\<exists>q. smoothedAmplitude (updateAnimation s now dataArray raf) = Some q \<and> 0 \<le> q \<and> q \<le> 1"
proof (cases "analyser s")
  case False
  then show ?thesis using p by (simp add: updateAnimation_def)
next
  case True
  obtain n where n: "amplitudeNormalized dataArray = Some n" "0 \<le> n" "n \<le> 1"
    using amplitudeNormalized_range [OF d] by blast
  let ?a = "amplitudeSmoothFactorVar (config s)"
  have "min p n \<le> p * (1 - ?a) + n * ?a" "p * (1 - ?a) + n * ?a \<le> max p n"
    using mix_between [OF a] by simp_all
  then have "0 \<le> p * (1 - ?a) + n * ?a" "p * (1 - ?a) + n * ?a \<le> 1"
    using p n by simp_all
  then show ?thesis
    using True n p by (simp add: smoothed_updateAnimation jadd_def jmul_def)
qed

lemma smoothed_loop_range:
  assumes "0 \<le> amplitudeSmoothFactorVar (config s)" "amplitudeSmoothFactorVar (config s) \<le> 1"
      and "\<forall>f\<in>set frames. fst (snd f) \<noteq> []"
      and "smoothedAmplitude s = Some p" "0 \<le> p" "p \<le> 1"
  shows "\<exists>q. smoothedAmplitude (animation_loop s frames) = Some q \<and> 0 \<le> q \<and> q \<le> 1"
  using assms
proof (induction frames arbitrary: s p)
  case Nil
  then show ?case by simp
next
  case (Cons f frames)
  obtain now d raf where f: "f = (now, d, raf)" by (cases f) auto
  have d: "d \<noteq> []" using Cons.prems(3) f by simp
  obtain q where q: "smoothedAmplitude (updateAnimation s now d raf) = Some q" "0 \<le> q" "q \<le> 1"
    using smoothed_step_range [OF Cons.prems(1,2) d Cons.prems(4,5,6)] by blast
  have "\<exists>r. smoothedAmplitude (animation_loop (updateAnimation s now d raf) frames) = Some r \<and> 0 \<le> r \<and> r \<le> 1"
    using Cons.prems(1,2,3) q by (intro Cons.IH [where p = q]) simp_all
  then show ?case by (simp add: f)
qed

text \<open>
  Claim C1. In every frame that has an analyser and a non-empty sample buffer, the
  smoothed amplitude becomes \<open>smoothed * (1 - \<alpha>) + normalized * \<alpha>\<close>, where
  \<open>normalized\<close> is the mean of \<open>|sample - 128|\<close> over the buffer divided by 128 and
  \<open>\<alpha>\<close> is the configured smoothing factor; the constructor's default for \<open>\<alpha>\<close> is 0.3.
\<close>

theorem C1_amplitude_sampler:
  assumes "analyser s" and "dataArray \<noteq> []" and "smoothedAmplitude s = Some sm"
  shows "smoothedAmplitude (updateAnimation s now dataArray raf) =
           Some (sm * (1 - amplitudeSmoothFactorVar (config s)) +
                 (\<Sum>x\<leftarrow>dataArray. \<bar>real (unat x) - 128\<bar>) / real (length dataArray) / 128
                   * amplitudeSmoothFactorVar (config s))
         \<and> amplitudeSmoothFactorVar (config (VoiceChat default_config page)) = 3 / 10"
  using assms
  by (simp add: smoothed_updateAnimation amplitudeNormalized_nonempty jadd_def jmul_def
      VoiceChat_def default_config_def)

theorem C1_amplitude_sampler_witness:
  "smoothedAmplitude (updateAnimation (idle0\<lparr> analyser := True \<rparr>) 0 [255, 0] 1) = Some (153 / 512)"
proof -
  let ?s = "idle0\<lparr> analyser := True \<rparr>"
  have h1: "analyser ?s" by simp
  have h2: "[255, 0 :: u8] \<noteq> []" by simp
  have h3: "smoothedAmplitude ?s = Some 0" by (simp add: idle0_def VoiceChat_def)
  have c: "amplitudeSmoothFactorVar (config idle0) = 3 / 10"
    by (simp add: idle0_def VoiceChat_def default_config_def)
  show ?thesis
    using C1_amplitude_sampler [OF h1 h2 h3, of 0 1 page0] by (simp add: c)
qed

subsection \<open>Rounding to the nearest double\<close>

lemma round_even_error: "\<bar>of_int (round_even x) - x\<bar> \<le> 1 / 2"
proof -
  have "of_int \<lfloor>x\<rfloor> \<le> x" "x < of_int \<lfloor>x\<rfloor> + 1" by linarith+
  then show ?thesis by (auto simp: round_even_def Let_def abs_le_iff)
qed

lemma round_even_le: "x \<le> of_int M \<Longrightarrow> round_even x \<le> M"
proof -
  assume a: "x \<le> of_int M"
  have f: "\<lfloor>x\<rfloor> \<le> M" using a by (simp add: floor_le_iff)
  show ?thesis
  proof (cases "\<lfloor>x\<rfloor> = M")
    case True
    then have "x = of_int \<lfloor>x\<rfloor>" using a by (metis of_int_floor_le order_antisym)
    then have "x - of_int \<lfloor>x\<rfloor> = 0" by simp
    then show ?thesis using True by (simp add: round_even_def Let_def)
  next
    case False
    then have "\<lfloor>x\<rfloor> + 1 \<le> M" using f by simp
    then show ?thesis by (auto simp: round_even_def Let_def)
  qed
qed

lemma round_even_ge: "of_int M \<le> x \<Longrightarrow> M \<le> round_even x"
proof -
  assume "of_int M \<le> x"
  then have "M \<le> \<lfloor>x\<rfloor>" by (simp add: le_floor_iff)
  then show ?thesis by (auto simp: round_even_def Let_def)
qed

lemma round_even_of_int: "round_even (of_int M) = M"
  by (simp add: round_even_def)

lemma round_even_near: "of_int M \<le> x \<Longrightarrow> x < of_int M + 1 / 2 \<Longrightarrow> round_even x = M"
proof -
  assume a: "of_int M \<le> x" "x < of_int M + 1 / 2"
  then have "\<lfloor>x\<rfloor> = M" by (simp add: floor_eq_iff)
  then show ?thesis using a by (simp add: round_even_def Let_def)
qed

lemma subnormal_scale_pos: "0 < subnormal_scale"
  by (simp only: subnormal_scale_def zero_less_power zero_less_numeral)

lemma scale_powi: "-1074 \<le> k \<Longrightarrow> 2 powi k * subnormal_scale = 2 ^ nat (k + 1074)"
proof -
  assume k: "-1074 \<le> k"
  have "2 powi k * subnormal_scale = 2 powi k * 2 powi 1074"
    by (simp only: subnormal_scale_def power_int_numeral)
  also have "\<dots> = 2 powi (k + 1074)" by (rule power_int_add [symmetric]) simp
  also have "\<dots> = 2 powi int (nat (k + 1074))" using k by simp
  also have "\<dots> = 2 ^ nat (k + 1074)" by (simp only: power_int_of_nat)
  finally show ?thesis .
qed

lemma ulp_exp_lower: "- 1074 \<le> ulp_exp x"
proof (cases "\<bar>x\<bar> * subnormal_scale < 2 ^ 52")
  case True
  then show ?thesis by (simp add: ulp_exp_def)
next
  case False
  then have "(2::real) ^ 52 \<le> \<bar>x\<bar> * subnormal_scale" by simp
  then have "(2::int) ^ 52 \<le> \<lfloor>\<bar>x\<bar> * subnormal_scale\<rfloor>" by (simp add: le_floor_iff)
  then have "(2::nat) ^ 52 \<le> nat \<lfloor>\<bar>x\<bar> * subnormal_scale\<rfloor>"
    by (metis nat_mono nat_numeral nat_power_eq zero_le_numeral)
  then have "Suc 52 \<le> floorlog 2 (nat \<lfloor>\<bar>x\<bar> * subnormal_scale\<rfloor>)"
    by (intro floorlog_ge_SucI) simp_all
  then show ?thesis using False by (simp add: ulp_exp_def Let_def)
qed


lemma ulp_exp_mono: "\<bar>x\<bar> \<le> \<bar>y\<bar> \<Longrightarrow> ulp_exp x \<le> ulp_exp y"
proof (cases "\<bar>x\<bar> * subnormal_scale < 2 ^ 52")
  case True
  then have "ulp_exp x = - 1074" by (simp add: ulp_exp_def)
  then show ?thesis using ulp_exp_lower [of y] by simp
next
  case False
  assume le: "\<bar>x\<bar> \<le> \<bar>y\<bar>"
  then have m: "\<bar>x\<bar> * subnormal_scale \<le> \<bar>y\<bar> * subnormal_scale"
    using subnormal_scale_pos by simp
  then have ny: "\<not> \<bar>y\<bar> * subnormal_scale < 2 ^ 52" using False by linarith
  have "nat \<lfloor>\<bar>x\<bar> * subnormal_scale\<rfloor> \<le> nat \<lfloor>\<bar>y\<bar> * subnormal_scale\<rfloor>"
    using m by (intro nat_mono floor_mono)
  then have "floorlog 2 (nat \<lfloor>\<bar>x\<bar> * subnormal_scale\<rfloor>) \<le> floorlog 2 (nat \<lfloor>\<bar>y\<bar> * subnormal_scale\<rfloor>)"
    by (rule floorlog_mono)
  then show ?thesis using False ny by (simp add: ulp_exp_def Let_def)
qed

lemma ulp_exp_le:
  assumes "\<bar>x\<bar> < 2 powi (e + 1)" and "- 1022 \<le> e"
  shows "ulp_exp x \<le> e - 52"
proof (cases "\<bar>x\<bar> * subnormal_scale < 2 ^ 52")
  case True
  then have "ulp_exp x = - 1074" by (simp add: ulp_exp_def)
  then show ?thesis using assms(2) by simp
next
  case False
  let ?y = "\<bar>x\<bar> * subnormal_scale"
  have pos: "0 \<le> \<lfloor>?y\<rfloor>" using subnormal_scale_pos by simp
  have "2 powi (e + 1) * subnormal_scale = 2 ^ nat (e + 1 + 1074)"
    using assms(2) by (intro scale_powi) simp
  moreover have "e + 1 + 1074 = e + 1075" by simp
  ultimately have s: "2 powi (e + 1) * subnormal_scale = 2 ^ nat (e + 1075)" by simp
  have "?y < 2 powi (e + 1) * subnormal_scale"
    using assms(1) subnormal_scale_pos by simp
  then have "?y < of_int (2 ^ nat (e + 1075))" by (simp add: s)
  then have "\<lfloor>?y\<rfloor> < 2 ^ nat (e + 1075)" by (simp only: floor_less_iff)
  then have "\<lfloor>?y\<rfloor> < int (2 ^ nat (e + 1075))" by simp
  then have "nat \<lfloor>?y\<rfloor> < 2 ^ nat (e + 1075)" using pos by (simp only: nat_less_iff)
  then have "floorlog 2 (nat \<lfloor>?y\<rfloor>) \<le> nat (e + 1075)"
    by (intro floorlog_leI) simp_all
  then show ?thesis using False assms(2) by (simp add: ulp_exp_def Let_def)
qed

lemma ulp_exp_ge:
  assumes "2 powi e \<le> \<bar>x\<bar>" and "- 1022 \<le> e"
  shows "e - 52 \<le> ulp_exp x"
proof -
  have "(2::real) ^ nat (e + 1074) = 2 powi e * subnormal_scale" using assms(2) scale_powi [of e] by simp
  also have "\<dots> \<le> \<bar>x\<bar> * subnormal_scale" using assms(1) subnormal_scale_pos by simp
  finally have big: "(2::real) ^ nat (e + 1074) \<le> \<bar>x\<bar> * subnormal_scale" .
  have "(2::real) ^ 52 \<le> 2 ^ nat (e + 1074)" using assms(2) by (intro power_increasing) simp_all
  then have normal: "\<not> \<bar>x\<bar> * subnormal_scale < 2 ^ 52" using big by linarith
  have "of_int (2 ^ nat (e + 1074)) \<le> \<bar>x\<bar> * subnormal_scale" using big by simp
  then have "(2::int) ^ nat (e + 1074) \<le> \<lfloor>\<bar>x\<bar> * subnormal_scale\<rfloor>" by (simp only: le_floor_iff)
  then have "nat ((2::int) ^ nat (e + 1074)) \<le> nat \<lfloor>\<bar>x\<bar> * subnormal_scale\<rfloor>"
    by (rule nat_mono)
  then have "(2::nat) ^ nat (e + 1074) \<le> nat \<lfloor>\<bar>x\<bar> * subnormal_scale\<rfloor>"
    by (simp add: nat_power_eq)
  then have "Suc (nat (e + 1074)) \<le> floorlog 2 (nat \<lfloor>\<bar>x\<bar> * subnormal_scale\<rfloor>)"
    by (intro floorlog_ge_SucI) simp_all
  then show ?thesis using normal assms(2) by (simp add: ulp_exp_def Let_def)
qed

lemma ulp_exp_eq:
  "2 powi e \<le> \<bar>x\<bar> \<Longrightarrow> \<bar>x\<bar> < 2 powi (e + 1) \<Longrightarrow> - 1022 \<le> e \<Longrightarrow> ulp_exp x = e - 52"
  using ulp_exp_le [of x e] ulp_exp_ge [of e x] by simp

lemma below_next_binade: "\<bar>x\<bar> < 2 powi (ulp_exp x + 53)"
proof (rule ccontr)
  assume "\<not> \<bar>x\<bar> < 2 powi (ulp_exp x + 53)"
  then have "2 powi (ulp_exp x + 53) \<le> \<bar>x\<bar>" by simp
  moreover have "- 1022 \<le> ulp_exp x + 53" using ulp_exp_lower [of x] by simp
  ultimately have "ulp_exp x + 53 - 52 \<le> ulp_exp x" by (rule ulp_exp_ge)
  then show False by simp
qed


lemma overflow_bound_powi: "overflow_bound = 2 powi 1024"
  by (simp only: overflow_bound_def power_int_numeral)

lemma powi_below_overflow: "j \<le> 1023 \<Longrightarrow> 2 powi j < overflow_bound"
proof -
  assume "j \<le> 1023"
  then have "j < 1024" by simp
  then have "(2::real) powi j < 2 powi 1024" by (intro power_int_strict_increasing) simp_all
  then show ?thesis by (simp only: overflow_bound_powi)
qed

lemma fl_error: "fl x = Some q \<Longrightarrow> \<bar>q - x\<bar> \<le> 2 powi (ulp_exp x) / 2"
proof -
  assume a: "fl x = Some q"
  let ?P = "(2::real) powi (ulp_exp x)"
  have P: "0 < ?P" by (simp add: zero_less_power_int)
  have q: "q = of_int (round_even (x / ?P)) * ?P"
    using a by (simp add: fl_def Let_def split: if_splits)
  have "q - x = (of_int (round_even (x / ?P)) - x / ?P) * ?P"
    using P by (simp add: q field_simps)
  then have "\<bar>q - x\<bar> = \<bar>of_int (round_even (x / ?P)) - x / ?P\<bar> * \<bar>?P\<bar>"
    by (simp only: abs_mult)
  also have "\<dots> = \<bar>of_int (round_even (x / ?P)) - x / ?P\<bar> * ?P"
    using P by simp
  also have "\<dots> \<le> 1 / 2 * ?P"
    using P round_even_error [of "x / ?P"] by (intro mult_right_mono) simp_all
  finally show ?thesis by simp
qed

lemma fl_bounded:
  assumes "0 \<le> u" and "u \<le> v" and "v = of_int M * 2 powi j" and "ulp_exp u \<le> j"
    and "v < overflow_bound"
  shows "\<exists>q. fl u = Some q \<and> 0 \<le> q \<and> q \<le> v"
proof -
  let ?k = "ulp_exp u"
  let ?P = "(2::real) powi ?k"
  let ?m = "round_even (u / ?P)"
  have P: "0 < ?P" by (simp add: zero_less_power_int)
  have "(2::real) powi j = 2 powi (int (nat (j - ?k)) + ?k)" using assms(4) by simp
  also have "\<dots> = 2 powi int (nat (j - ?k)) * ?P" by (rule power_int_add) simp
  also have "\<dots> = 2 ^ nat (j - ?k) * ?P" by (simp only: power_int_of_nat)
  finally have v: "v = of_int (M * 2 ^ nat (j - ?k)) * ?P" using assms(3) by simp
  have "u / ?P \<le> v / ?P" using assms(2) P by (simp add: divide_right_mono)
  also have "v / ?P = of_int (M * 2 ^ nat (j - ?k))" using P by (simp add: v)
  finally have "?m \<le> M * 2 ^ nat (j - ?k)" by (rule round_even_le)
  then have "(of_int ?m :: real) \<le> of_int (M * 2 ^ nat (j - ?k))" by (simp only: of_int_le_iff)
  then have "of_int ?m * ?P \<le> of_int (M * 2 ^ nat (j - ?k)) * ?P"
    by (rule mult_right_mono [OF _ less_imp_le [OF P]])
  then have up: "of_int ?m * ?P \<le> v" by (simp only: v)
  have "of_int 0 \<le> u / ?P" using assms(1) P by simp
  then have "0 \<le> ?m" by (rule round_even_ge)
  then have lo: "0 \<le> of_int ?m * ?P" using P by simp
  have "\<not> overflow_bound \<le> \<bar>of_int ?m * ?P\<bar>" using lo up assms(5) by simp
  then have "fl u = Some (of_int ?m * ?P)" by (simp add: fl_def Let_def)
  then show ?thesis using lo up by simp
qed

lemma fl_pow2:
  assumes "- 1022 \<le> j" and "j \<le> 1023"
  shows "fl (2 powi j) = Some (2 powi j)"
proof -
  let ?x = "(2::real) powi j"
  have x: "0 < ?x" by (simp add: zero_less_power_int)
  have "?x < 2 powi (j + 1)" by (intro power_int_strict_increasing) simp_all
  then have k: "ulp_exp ?x = j - 52" using x assms(1) by (intro ulp_exp_eq) simp_all
  have "?x = 2 powi (52 + (j - 52))" by simp
  also have "\<dots> = 2 powi 52 * 2 powi (j - 52)" by (rule power_int_add) simp
  finally have split: "?x = 2 ^ 52 * 2 powi (j - 52)" by (simp only: power_int_numeral)
  have P: "(0::real) < 2 powi (j - 52)" by (simp add: zero_less_power_int)
  have "?x / 2 powi (j - 52) = of_int (2 ^ 52)" using P by (subst split) simp
  then have "round_even (?x / 2 powi (j - 52)) = 2 ^ 52" by (simp only: round_even_of_int)
  then have r: "of_int (round_even (?x / 2 powi (j - 52))) * 2 powi (j - 52) = ?x"
    by (subst (2) split) simp
  have "\<not> overflow_bound \<le> \<bar>?x\<bar>" using powi_below_overflow [OF assms(2)] x by simp
  then show ?thesis by (simp add: fl_def Let_def k r)
qed

lemma fl_no_crossing:
  assumes "fl y = Some c" and "0 \<le> y" and "0 \<le> u" and "u \<le> c"
  shows "\<exists>q. fl u = Some q \<and> 0 \<le> q \<and> q \<le> c"
proof -
  let ?k = "ulp_exp y"
  let ?P = "(2::real) powi ?k"
  let ?m = "round_even (y / ?P)"
  have P: "0 < ?P" by (simp add: zero_less_power_int)
  have c: "c = of_int ?m * ?P" and fin: "\<bar>c\<bar> < overflow_bound"
    using assms(1) by (simp_all add: fl_def Let_def split: if_splits)
  have top: "(2::real) powi (?k + 53) = of_int (2 ^ 53) * ?P"
  proof -
    have "(2::real) powi (53 + ?k) = 2 powi 53 * ?P" by (rule power_int_add) simp
    then show ?thesis by (simp add: add.commute)
  qed
  have "y < 2 powi (?k + 53)" using below_next_binade [of y] assms(2) by simp
  then have "y / ?P \<le> of_int (2 ^ 53)" using P by (simp add: top pos_divide_le_eq)
  then have "?m \<le> 2 ^ 53" by (rule round_even_le)
  then have "(of_int ?m :: real) \<le> of_int (2 ^ 53)" by (simp only: of_int_le_iff)
  then have "of_int ?m * ?P \<le> of_int (2 ^ 53) * ?P"
    by (rule mult_right_mono [OF _ less_imp_le [OF P]])
  then have cle: "c \<le> 2 powi (?k + 53)" by (simp only: c top)
  show ?thesis
  proof (cases "u < 2 powi (?k + 53)")
    case True
    have "\<bar>u\<bar> < 2 powi (?k + 52 + 1)" using True assms(3) by (simp add: add.commute add.left_commute)
    moreover have "- 1022 \<le> ?k + 52" using ulp_exp_lower [of y] by simp
    ultimately have "ulp_exp u \<le> ?k + 52 - 52" by (rule ulp_exp_le)
    then have ku: "ulp_exp u \<le> ?k" by simp
    have "c < overflow_bound" using fin by simp
    with assms(3,4) c ku show ?thesis by (intro fl_bounded [where M = ?m and j = ?k])
  next
    case False
    then have u: "u = 2 powi (?k + 53)" and cu: "c = u" using cle assms(4) by simp_all
    have "(2::real) powi (?k + 53) < 2 powi 1024" using fin cu u by (simp add: overflow_bound_powi)
    then have "?k + 53 < 1024" by (intro power_int_le_imp_less_exp [of 2]) simp_all
    then have hi: "?k + 53 \<le> 1023" by simp
    have lo: "- 1022 \<le> ?k + 53" using ulp_exp_lower [of y] by simp
    have "fl u = Some u" unfolding u using lo hi by (rule fl_pow2)
    then show ?thesis using cu assms(3) by simp
  qed
qed

lemma fl_unit:
  assumes "0 \<le> x" and "x \<le> 1"
  shows "\<exists>q. fl x = Some q \<and> 0 \<le> q \<and> q \<le> 1 \<and> \<bar>q - x\<bar> \<le> 2 powi (- 54)"
proof (cases "x < 1")
  case True
  have "\<bar>x\<bar> < 2 powi (- 1 + 1)" using True assms(1) by simp
  then have "ulp_exp x \<le> - 1 - 52" by (rule ulp_exp_le) simp
  then have k: "ulp_exp x \<le> - 53" by simp
  have one: "(1::real) = of_int (2 ^ 53) * 2 powi (- 53)" by simp
  have "(1::real) = 2 powi 0" by simp
  also have "\<dots> < overflow_bound" by (rule powi_below_overflow) simp
  finally have fin: "(1::real) < overflow_bound" .
  obtain q where q: "fl x = Some q" "0 \<le> q" "q \<le> 1"
    using fl_bounded [OF assms(1,2) one k fin] by blast
  have "\<bar>q - x\<bar> \<le> 2 powi (ulp_exp x) / 2" using q(1) by (rule fl_error)
  also have "\<dots> \<le> 2 powi (- 53) / 2"
    using k by (intro divide_right_mono power_int_increasing) simp_all
  also have "\<dots> = 2 powi (- 54)" by simp
  finally show ?thesis using q by blast
next
  case False
  then have x: "x = 2 powi 0" using assms(2) by simp
  have "fl x = Some x" unfolding x by (rule fl_pow2) simp_all
  then show ?thesis using x by simp
qed

lemma fl_just_above_one:
  assumes "1 \<le> t" and "t \<le> 1 + 2 powi (- 54)"
  shows "fl t = Some 1"
proof -
  have t2: "t < 2" using assms(2) by simp
  have "ulp_exp t = 0 - 52" using assms(1) t2 by (intro ulp_exp_eq) simp_all
  then have k: "ulp_exp t = - 52" by simp
  have a: "of_int (2 ^ 52) \<le> t / 2 powi (- 52)" using assms(1) by simp
  have b: "t / 2 powi (- 52) < of_int (2 ^ 52) + 1 / 2" using assms(2) by simp
  have "round_even (t / 2 powi (- 52)) = 2 ^ 52" using a b by (rule round_even_near)
  then have r: "of_int (round_even (t / 2 powi (- 52))) * 2 powi (- 52) = (1::real)" by simp
  have "(1::real) = 2 powi 0" by simp
  also have "\<dots> < overflow_bound" by (rule powi_below_overflow) simp
  finally have nov: "\<not> overflow_bound \<le> \<bar>1::real\<bar>" by simp
  have "fl t =
      (if overflow_bound \<le> \<bar>of_int (round_even (t / 2 powi (- 52))) * 2 powi (- 52)\<bar> then None
       else Some (of_int (round_even (t / 2 powi (- 52))) * 2 powi (- 52)))"
    by (simp only: fl_def Let_def k)
  also have "\<dots> = (if overflow_bound \<le> \<bar>1::real\<bar> then None else Some 1)" by (simp only: r)
  also have "\<dots> = Some 1" using nov by (simp only: if_False)
  finally show ?thesis .
qed


lemma fl_eval:
  assumes "2 powi e \<le> x" and "x < 2 powi (e + 1)" and "- 1022 \<le> e" and "e \<le> 1022"
  shows "fl x = Some (of_int (round_even (x / 2 powi (e - 52))) * 2 powi (e - 52))"
proof -
  have "(0::real) < 2 powi e" by (simp add: zero_less_power_int)
  then have x: "0 < x" using assms(1) by linarith
  have k: "ulp_exp x = e - 52" using assms(1,2,3) x by (intro ulp_exp_eq) simp_all
  have v: "(2::real) powi (e + 1) = of_int 1 * 2 powi (e + 1)" by simp
  have "(2::real) powi (e + 1) < overflow_bound" using assms(4) by (intro powi_below_overflow) simp
  moreover have "ulp_exp x \<le> e + 1" by (simp add: k)
  moreover have "0 \<le> x" "x \<le> 2 powi (e + 1)" using x assms(2) by simp_all
  ultimately obtain q where q: "fl x = Some q"
    using fl_bounded [where u = x and v = "2 powi (e + 1)" and M = 1 and j = "e + 1"] v by blast
  then have "q = of_int (round_even (x / 2 powi (e - 52))) * 2 powi (e - 52)"
    by (simp add: fl_def Let_def k split: if_splits)
  then show ?thesis using q by simp
qed

lemma smoothing_double_step:
  assumes a: "0 < a" "a \<le> 1" "fl a = Some a"
    and p: "0 \<le> p" "p \<le> 1" and n: "0 \<le> n" "n \<le> 1"
  shows "\<exists>q. smoothing_double a (Some p) (Some n) = Some q \<and> 0 \<le> q \<and> q \<le> 1
             \<and> \<bar>q - (p * (1 - a) + n * a)\<bar> \<le> 2 powi (- 52)"
proof -
  define e :: real where "e = 2 powi (- 54)"
  have a1: "0 \<le> 1 - a" "1 - a \<le> 1" using a by simp_all
  obtain c where c: "fl (1 - a) = Some c" "0 \<le> c" "c \<le> 1" "\<bar>c - (1 - a)\<bar> \<le> e"
    using fl_unit [OF a1] unfolding e_def by blast
  have pc: "0 \<le> p * c" "p * c \<le> c" using p c(2) by (simp_all add: mult_left_le_one_le)
  have pc1: "p * c \<le> 1" using pc(2) c(3) by linarith
  obtain x1 where x1: "fl (p * c) = Some x1" "0 \<le> x1" "x1 \<le> c"
    using fl_no_crossing [OF c(1) a1(1) pc] by blast
  have e1: "\<bar>x1 - p * c\<bar> \<le> e" using fl_unit [OF pc(1) pc1] x1(1) unfolding e_def by auto
  have na: "0 \<le> n * a" "n * a \<le> a" using n a(1) by (simp_all add: mult_left_le_one_le)
  have na1: "n * a \<le> 1" using na(2) a(2) by linarith
  have a0: "0 \<le> a" using a(1) by simp
  obtain x2 where x2: "fl (n * a) = Some x2" "0 \<le> x2" "x2 \<le> a"
    using fl_no_crossing [OF a(3) a0 na] by blast
  have e2: "\<bar>x2 - n * a\<bar> \<le> e" using fl_unit [OF na(1) na1] x2(1) unfolding e_def by auto
  have t0: "0 \<le> x1 + x2" using x1(2) x2(2) by simp
  have "c \<le> 1 - a + e" using c(4) by linarith
  then have t1: "x1 + x2 \<le> 1 + e" using x1(3) x2(3) by linarith
  obtain q where q: "fl (x1 + x2) = Some q" "0 \<le> q" "q \<le> 1" "\<bar>q - (x1 + x2)\<bar> \<le> e"
  proof (cases "x1 + x2 \<le> 1")
    case True
    from fl_unit [OF t0 True] that show ?thesis unfolding e_def by blast
  next
    case False
    then have one: "1 \<le> x1 + x2" by simp
    have "x1 + x2 \<le> 1 + 2 powi (- 54)" using t1 unfolding e_def .
    with one have f: "fl (x1 + x2) = Some 1" by (rule fl_just_above_one)
    have "\<bar>1 - (x1 + x2)\<bar> \<le> e" using one t1 by linarith
    with f that show ?thesis by simp
  qed
  have sm: "smoothing_double a (Some p) (Some n) = Some q"
    by (simp add: smoothing_double_def dadd_def dsub_def dmul_def c(1) x1(1) x2(1) q(1))
  have e0: "0 \<le> e" by (simp add: e_def)
  have "p * \<bar>c - (1 - a)\<bar> \<le> 1 * e"
    using p c(4) e0 by (intro mult_mono) simp_all
  then have e3: "\<bar>p * (c - (1 - a))\<bar> \<le> e" using p(1) by (simp add: abs_mult)
  have "q - (p * (1 - a) + n * a) = (q - (x1 + x2)) + (x1 - p * c) + (x2 - n * a) + p * (c - (1 - a))"
    by (simp add: algebra_simps)
  then have "\<bar>q - (p * (1 - a) + n * a)\<bar> \<le> e + e + e + e"
    using q(4) e1 e2 e3 by linarith
  also have "\<dots> = 2 powi (- 52)" by (simp add: e_def)
  finally show ?thesis using sm q(2,3) by blast
qed

lemma smoothing_run_double_unit:
  assumes "0 < a" "a \<le> 1" "fl a = Some a" and "0 \<le> p" "p \<le> 1"
    and "\<forall>n\<in>set inputs. 0 \<le> n \<and> n \<le> 1"
  shows "\<exists>q. smoothing_run_double a (Some p) inputs = Some q \<and> 0 \<le> q \<and> q \<le> 1"
  using assms(4,5,6)
proof (induction inputs arbitrary: p)
  case Nil
  then show ?case by (simp add: smoothing_run_double_def)
next
  case (Cons n inputs)
  have n: "0 \<le> n" "n \<le> 1" using Cons.prems(3) by simp_all
  obtain q where q: "smoothing_double a (Some p) (Some n) = Some q" "0 \<le> q" "q \<le> 1"
    using smoothing_double_step [OF assms(1,2,3) Cons.prems(1,2) n] by blast
  have "\<exists>r. smoothing_run_double a (Some q) inputs = Some r \<and> 0 \<le> r \<and> r \<le> 1"
    using q(2,3) Cons.prems(3) by (intro Cons.IH) simp_all
  then show ?case by (simp add: smoothing_run_double_def q(1))
qed

lemma fl_three_tenths: "fl (3 / 10) = Some (5404319552844595 / 18014398509481984)"
proof -
  have "fl (3 / 10) = Some (of_int (round_even (3 / 10 / 2 powi (- 2 - 52))) * 2 powi (- 2 - 52))"
    by (rule fl_eval) simp_all
  also have "round_even (3 / 10 / 2 powi (- 2 - 52)) = 5404319552844595"
    by (simp add: round_even_def Let_def)
  finally show ?thesis by simp
qed

lemma fl_one_minus_three_tenths:
  "fl (1 - 5404319552844595 / 18014398509481984) = Some (3152519739159347 / 4503599627370496)"
proof -
  let ?x = "1 - 5404319552844595 / 18014398509481984 :: real"
  have "fl ?x = Some (of_int (round_even (?x / 2 powi (- 1 - 52))) * 2 powi (- 1 - 52))"
    by (rule fl_eval) simp_all
  also have "round_even (?x / 2 powi (- 1 - 52)) = 6305039478318694"
    by (simp add: round_even_def Let_def)
  finally show ?thesis by simp
qed

lemma fl_prior_times:
  "fl (63 / 64 * (3152519739159347 / 4503599627370496)) = Some (1551630809117491 / 2251799813685248)"
proof -
  let ?x = "63 / 64 * (3152519739159347 / 4503599627370496) :: real"
  have "fl ?x = Some (of_int (round_even (?x / 2 powi (- 1 - 52))) * 2 powi (- 1 - 52))"
    by (rule fl_eval) simp_all
  also have "round_even (?x / 2 powi (- 1 - 52)) = 6206523236469964"
    by (simp add: round_even_def Let_def)
  finally show ?thesis by simp
qed

lemma fl_input_times:
  "fl (63 / 64 * (5404319552844595 / 18014398509481984)) = Some (2659938529915699 / 9007199254740992)"
proof -
  let ?x = "63 / 64 * (5404319552844595 / 18014398509481984) :: real"
  have "fl ?x = Some (of_int (round_even (?x / 2 powi (- 2 - 52))) * 2 powi (- 2 - 52))"
    by (rule fl_eval) simp_all
  also have "round_even (?x / 2 powi (- 2 - 52)) = 5319877059831398"
    by (simp add: round_even_def Let_def)
  finally show ?thesis by simp
qed

lemma fl_sum:
  "fl (1551630809117491 / 2251799813685248 + 2659938529915699 / 9007199254740992)
     = Some (8866461766385663 / 9007199254740992)"
proof -
  let ?x = "1551630809117491 / 2251799813685248 + 2659938529915699 / 9007199254740992 :: real"
  have "fl ?x = Some (of_int (round_even (?x / 2 powi (- 1 - 52))) * 2 powi (- 1 - 52))"
    by (rule fl_eval) simp_all
  also have "round_even (?x / 2 powi (- 1 - 52)) = 8866461766385663"
    by (simp add: round_even_def Let_def)
  finally show ?thesis by simp
qed

text \<open>
  Claim C2, as stated, fails on the code's arithmetic. With the default smoothing factor
  (the double nearest to 0.3), a smoothed amplitude of 0.984375 and a normalized input
  of 0.984375 (a buffer of the constant byte 2), the update evaluates in doubles to
  \<open>0.984375 - 2^-53\<close>, printed \<^verbatim>\<open>0.9843749999999999\<close>: below the minimum of prior and
  input.
\<close>

theorem C2_smoothed_bounded_counterexample:
  "fl (3 / 10) = Some (5404319552844595 / 18014398509481984)
   \<and> amplitudeNormalized [2, 2] = Some (63 / 64)
   \<and> smoothing_double (5404319552844595 / 18014398509481984) (Some (63 / 64)) (Some (63 / 64))
       = Some (8866461766385663 / 9007199254740992)
   \<and> (8866461766385663 / 9007199254740992 :: real) < min (63 / 64) (63 / 64)"
proof -
  have n: "amplitudeNormalized [2, 2] = Some (63 / 64)"
    by (simp add: amplitudeNormalized_def jdiv_def)
  have s: "smoothing_double (5404319552844595 / 18014398509481984) (Some (63 / 64)) (Some (63 / 64))
       = Some (8866461766385663 / 9007199254740992)"
    by (simp only: smoothing_double_def dadd_def dsub_def dmul_def option.case
        fl_one_minus_three_tenths fl_prior_times fl_input_times fl_sum)
  have l: "(8866461766385663 / 9007199254740992 :: real) < min (63 / 64) (63 / 64)" by simp
  from fl_three_tenths n s l show ?thesis by blast
qed

text \<open>
  Claim C2, amended. For a smoothing factor \<open>a\<close> in \<open>(0, 1]\<close>: evaluated exactly, one
  smoothing update lies between the prior value and the normalized input. Evaluated as
  the code does, in double arithmetic (\<open>a\<close> a double, prior and input in \<open>[0, 1]\<close>), it
  lies within \<open>2^-52\<close> of that interval and in \<open>[0, 1]\<close>. And starting from 0 with
  all inputs in \<open>[0, 1]\<close>, the smoothed amplitude computed in doubles is in \<open>[0, 1]\<close>
  after every update.
\<close>

theorem C2_smoothed_bounded:
  assumes "0 < a" and "a \<le> 1"
  shows "(analyser s \<and> amplitudeSmoothFactorVar (config s) = a \<and> smoothedAmplitude s = Some p
            \<and> amplitudeNormalized dataArray = Some n \<longrightarrow>
            (\<exists>q. smoothedAmplitude (updateAnimation s now dataArray raf) = Some q \<and>
                 min p n \<le> q \<and> q \<le> max p n))
       \<and> (fl a = Some a \<and> 0 \<le> p \<and> p \<le> 1 \<and> 0 \<le> n \<and> n \<le> 1 \<longrightarrow>
            (\<exists>q. smoothing_double a (Some p) (Some n) = Some q \<and>
                 min p n - 2 powi (- 52) \<le> q \<and> q \<le> max p n + 2 powi (- 52) \<and>
                 0 \<le> q \<and> q \<le> 1))
       \<and> (fl a = Some a \<and> (\<forall>n\<in>set inputs. 0 \<le> n \<and> n \<le> 1) \<longrightarrow>
            (\<forall>k\<le>length inputs.
               \<exists>q. smoothing_run_double a (Some 0) (take k inputs) = Some q \<and> 0 \<le> q \<and> q \<le> 1))"
proof (intro conjI impI allI)
  assume h: "analyser s \<and> amplitudeSmoothFactorVar (config s) = a \<and> smoothedAmplitude s = Some p
            \<and> amplitudeNormalized dataArray = Some n"
  have a0: "0 \<le> a" using assms(1) by simp
  have "min p n \<le> p * (1 - a) + n * a" "p * (1 - a) + n * a \<le> max p n"
    using mix_between [OF a0 assms(2)] by simp_all
  then show "\<exists>q. smoothedAmplitude (updateAnimation s now dataArray raf) = Some q \<and>
                 min p n \<le> q \<and> q \<le> max p n"
    using h by (simp add: smoothed_updateAnimation jadd_def jmul_def)
next
  assume h: "fl a = Some a \<and> 0 \<le> p \<and> p \<le> 1 \<and> 0 \<le> n \<and> n \<le> 1"
  define d :: real where "d = 2 powi (- 52)"
  have a0: "0 \<le> a" using assms(1) by simp
  have ex: "min p n \<le> p * (1 - a) + n * a" "p * (1 - a) + n * a \<le> max p n"
    using mix_between [OF a0 assms(2)] by simp_all
  obtain q where q: "smoothing_double a (Some p) (Some n) = Some q" "0 \<le> q" "q \<le> 1"
    "\<bar>q - (p * (1 - a) + n * a)\<bar> \<le> d"
    using smoothing_double_step [OF assms, of p n] h unfolding d_def by blast
  have "min p n - d \<le> q" "q \<le> max p n + d" using q(4) ex by linarith+
  then show "\<exists>q. smoothing_double a (Some p) (Some n) = Some q \<and>
                 min p n - 2 powi (- 52) \<le> q \<and> q \<le> max p n + 2 powi (- 52) \<and> 0 \<le> q \<and> q \<le> 1"
    using q(1,2,3) unfolding d_def by blast
next
  fix k
  assume h: "fl a = Some a \<and> (\<forall>n\<in>set inputs. 0 \<le> n \<and> n \<le> 1)"
  have "\<forall>n\<in>set (take k inputs). 0 \<le> n \<and> n \<le> 1"
    using h by (meson in_set_takeD)
  then show "\<exists>q. smoothing_run_double a (Some 0) (take k inputs) = Some q \<and> 0 \<le> q \<and> q \<le> 1"
    using h assms by (intro smoothing_run_double_unit) simp_all
qed

theorem C2_smoothed_bounded_witness:
  "(\<exists>q. smoothedAmplitude (updateAnimation (idle0\<lparr> analyser := True \<rparr>) 0 [255, 0] 1) = Some q \<and>
        min 0 (255 / 256) \<le> q \<and> q \<le> max 0 (255 / 256))
   \<and> (\<exists>q. smoothing_double (5404319552844595 / 18014398509481984) (Some (63 / 64)) (Some (63 / 64)) = Some q \<and>
           min (63 / 64) (63 / 64) - 2 powi (- 52) \<le> q \<and> q \<le> max (63 / 64) (63 / 64) + 2 powi (- 52) \<and>
           0 \<le> q \<and> q \<le> 1)
   \<and> (\<exists>q. smoothing_run_double (5404319552844595 / 18014398509481984) (Some 0) [63 / 64, 1 / 2] = Some q \<and>
           0 \<le> q \<and> q \<le> 1)"
proof -
  let ?s = "idle0\<lparr> analyser := True \<rparr>"
  let ?a = "5404319552844595 / 18014398509481984 :: real"
  let ?inputs = "[63 / 64, 1 / 2] :: real list"
  have h1: "0 < ?a" by simp
  have h2: "?a \<le> 1" by simp
  have dbl: "fl ?a = Some ?a"
  proof -
    have "fl ?a = Some (of_int (round_even (?a / 2 powi (- 2 - 52))) * 2 powi (- 2 - 52))"
      by (rule fl_eval) simp_all
    also have "round_even (?a / 2 powi (- 2 - 52)) = 5404319552844595"
      by (simp add: round_even_def Let_def)
    finally show ?thesis by simp
  qed
  have a: "\<exists>q. smoothedAmplitude (updateAnimation ?s 0 [255, 0] 1) = Some q \<and>
        min 0 (255 / 256) \<le> q \<and> q \<le> max 0 (255 / 256)"
  proof -
    have g1: "(0::real) < 3 / 10" and g2: "(3 / 10 :: real) \<le> 1" by simp_all
    have g3: "analyser ?s \<and> amplitudeSmoothFactorVar (config ?s) = 3 / 10 \<and> smoothedAmplitude ?s = Some 0
        \<and> amplitudeNormalized [255, 0] = Some (255 / 256)"
      by (simp add: idle0_def VoiceChat_def default_config_def amplitudeNormalized_def jdiv_def)
    from C2_smoothed_bounded [OF g1 g2, of ?s 0 "[255, 0]" "255 / 256" 0 1] g3 show ?thesis by blast
  qed
  have h3: "fl ?a = Some ?a \<and> (0::real) \<le> 63 / 64 \<and> (63 / 64 :: real) \<le> 1 \<and> (0::real) \<le> 63 / 64 \<and> (63 / 64 :: real) \<le> 1"
    using dbl by simp
  have h4: "fl ?a = Some ?a \<and> (\<forall>n\<in>set ?inputs. 0 \<le> n \<and> n \<le> 1)" using dbl by simp
  note u = C2_smoothed_bounded [OF h1 h2, where p = "63 / 64" and n = "63 / 64" and inputs = ?inputs]
  from u h3 have b: "\<exists>q. smoothing_double ?a (Some (63 / 64)) (Some (63 / 64)) = Some q \<and>
           min (63 / 64) (63 / 64) - 2 powi (- 52) \<le> q \<and> q \<le> max (63 / 64) (63 / 64) + 2 powi (- 52) \<and>
           0 \<le> q \<and> q \<le> 1" by blast
  from u h4 have every: "\<forall>k\<le>length ?inputs.
       \<exists>q. smoothing_run_double ?a (Some 0) (take k ?inputs) = Some q \<and> 0 \<le> q \<and> q \<le> 1" by blast
  have "2 \<le> length ?inputs" by simp
  with every have "\<exists>q. smoothing_run_double ?a (Some 0) (take 2 ?inputs) = Some q \<and> 0 \<le> q \<and> q \<le> 1"
    by blast
  then have c: "\<exists>q. smoothing_run_double ?a (Some 0) ?inputs = Some q \<and> 0 \<le> q \<and> q \<le> 1" by simp
  from a b c show ?thesis by blast
qed

subsection \<open>Element binding\<close>

lemma init_loop_initialized:
  "initialized (store r) \<Longrightarrow> init_loop s now rnd k store rs r = store r"
proof (induction rs arbitrary: store k)
  case Nil
  show ?case by simp
next
  case (Cons a rs)
  show ?case
  proof (cases "initialized (store a)")
    case True
    then show ?thesis using Cons by simp
  next
    case False
    then have ne: "a \<noteq> r" using Cons.prems by auto
    then have "initialized ((store(a := init_el s now rnd k (store a))) r)"
      using Cons.prems by simp
    then have "init_loop s now rnd (k + 5) (store(a := init_el s now rnd k (store a))) rs r
                 = (store(a := init_el s now rnd k (store a))) r"
      by (rule Cons.IH)
    then show ?thesis using False ne by simp
  qed
qed

lemma initialized_init_el: "initialized (init_el s now rnd k el)"
  by (simp add: init_el_def Let_def)

lemma init_loop_fresh:
  "r \<in> set rs \<Longrightarrow> \<not> initialized (store r) \<Longrightarrow>
   \<exists>k'. init_loop s now rnd k store rs r = init_el s now rnd k' (store r)"
proof (induction rs arbitrary: store k)
  case Nil
  then show ?case by simp
next
  case (Cons a rs)
  show ?case
  proof (cases "a = r")
    case True
    let ?store = "store(r := init_el s now rnd k (store r))"
    have "initialized (?store r)" by (simp add: initialized_init_el)
    then have "init_loop s now rnd (k + 5) ?store rs r = ?store r"
      by (rule init_loop_initialized)
    then show ?thesis using True Cons.prems(2) by auto
  next
    case False
    then have mem: "r \<in> set rs" using Cons.prems(1) by simp
    show ?thesis
    proof (cases "initialized (store a)")
      case True
      then show ?thesis using Cons.IH [OF mem, where store = store] Cons.prems(2) by simp
    next
      case F: False
      let ?store = "store(a := init_el s now rnd k (store a))"
      have same: "?store r = store r" using False by simp
      then have fresh: "\<not> initialized (?store r)" using Cons.prems(2) by simp
      have "\<exists>k'. init_loop s now rnd (k + 5) ?store rs r = init_el s now rnd k' (?store r)"
        using mem fresh by (rule Cons.IH)
      then show ?thesis using F same by simp
    qed
  qed
qed

lemma nodes_initElements:
  "nodes (initElements s q now rnd) =
     init_loop (s\<lparr> toggleBtn := q_toggleBtn q, endBtn := q_endBtn q,
           micStatus := q_micStatus q, micDevice := q_micDevice q, voiceEls := q_voiceEls q \<rparr>)
       now rnd 0 (nodes s) (q_voiceEls q)"
  by (simp add: initElements_def Let_def updateMicDisplay_def)

text \<open>
  Claim C5. Binding is idempotent per element: a node that is already marked initialized
  is left exactly as it is by \<^verbatim>\<open>initElements\<close> (its offset, speed, scale multiplier,
  transform origin, current rotation and current scale), whatever the lookups return
  and whatever \<^verbatim>\<open>Math.random()\<close> yields.
\<close>

theorem C5_initElements_idempotent:
  "initialized (nodes s r) \<Longrightarrow> nodes (initElements s q now rnd) r = nodes s r"
  by (simp add: nodes_initElements init_loop_initialized)

theorem C5_initElements_idempotent_witness:
  "nodes (initElements (idle0\<lparr> nodes := page0(2 := el1) \<rparr>) query0 0 (\<lambda>_. 1 / 2)) 2 = el1
   \<and> initialized (nodes (initElements (idle0\<lparr> nodes := page0(2 := el1) \<rparr>) query0 0 (\<lambda>_. 1 / 2)) 0)
   \<and> \<not> initialized (nodes (idle0\<lparr> nodes := page0(2 := el1) \<rparr>) 0)"
proof -
  let ?s = "idle0\<lparr> nodes := page0(2 := el1) \<rparr>"
  have h: "initialized (nodes ?s 2)" by (simp add: el1_def)
  have a: "nodes (initElements ?s query0 0 (\<lambda>_. 1 / 2)) 2 = el1"
    using C5_initElements_idempotent [OF h, of query0 0 "\<lambda>_. 1 / 2"] by simp
  have b: "initialized (nodes (initElements ?s query0 0 (\<lambda>_. 1 / 2)) 0)"
    by (simp add: nodes_initElements query0_def page0_def el0_def initialized_init_el)
  have c: "\<not> initialized (nodes ?s 0)" by (simp add: page0_def el0_def)
  from a b c show ?thesis by blast
qed

lemma init_loop_all_initialized:
  "\<forall>r\<in>set rs. initialized (store r) \<Longrightarrow> init_loop s now rnd k store rs = store"
  by (induction rs arbitrary: store k) simp_all

lemma init_loop_initializes:
  "r \<in> set rs \<Longrightarrow> initialized (init_loop s now rnd k store rs r)"
proof (cases "initialized (store r)")
  case True
  then show ?thesis by (simp add: init_loop_initialized)
next
  case False
  assume "r \<in> set rs"
  from init_loop_fresh [OF this, where store = store] False show ?thesis
    by (metis initialized_init_el)
qed

lemma initElements_twice:
  "nodes (initElements (initElements s q now rnd) q now' rnd') = nodes (initElements s q now rnd)"
proof -
  have "\<forall>r\<in>set (q_voiceEls q). initialized (nodes (initElements s q now rnd) r)"
    by (simp add: nodes_initElements init_loop_initializes)
  then show ?thesis
    by (subst nodes_initElements) (rule init_loop_all_initialized)
qed


subsection \<open>Motion mapper\<close>

lemma lerp_finite: "lerp (Some a) (Some b) (Some t) = Some (a + t * (b - a))"
  by (simp add: lerp_def jadd_def jmul_def jsub_def)

lemma animate_el_other: "r' \<noteq> r \<Longrightarrow> animate_el cfg sm eff f store r' r = store r"
  by (simp add: animate_el_def Let_def)

lemma animate_el_same:
  "animate_el cfg sm eff f store r r =
     (store r)\<lparr> currentRotation :=
                  lerp (currentRotation (store r))
                    (jadd (jadd (dataset_offset (store r))
                                (jdiv (jmul (Some eff) (dataset_speed (store r))) (baseRotationDivisor cfg)))
                          (jmul sm (Some (maxAdditionalRotation cfg)))) f,
                currentScale :=
                  lerp (currentScale (store r))
                    (jadd (Some 1) (jmul (jmul sm (dataset_scaleMultiplier (store r)))
                                         (Some (baseScaleMultiplier cfg)))) f \<rparr>"
  by (simp add: animate_el_def Let_def)

lemma foldl_animate_notin:
  "r \<notin> set rs \<Longrightarrow> foldl (animate_el cfg sm eff f) store rs r = store r"
  by (induction rs arbitrary: store) (auto simp: animate_el_other)

lemma foldl_animate_distinct:
  "distinct rs \<Longrightarrow> r \<in> set rs \<Longrightarrow>
   foldl (animate_el cfg sm eff f) store rs r = animate_el cfg sm eff f store r r"
proof (induction rs arbitrary: store)
  case Nil
  then show ?case by simp
next
  case (Cons a rs)
  show ?case
  proof (cases "a = r")
    case True
    then have "r \<notin> set rs" using Cons.prems(1) by simp
    then show ?thesis using True by (simp add: foldl_animate_notin)
  next
    case False
    then have mem: "r \<in> set rs" and d: "distinct rs" using Cons.prems by simp_all
    have "foldl (animate_el cfg sm eff f) (animate_el cfg sm eff f store a) rs r
            = animate_el cfg sm eff f (animate_el cfg sm eff f store a) r r"
      using d mem by (rule Cons.IH)
    also have "\<dots> = animate_el cfg sm eff f store r r"
      using False by (simp add: animate_el_same animate_el_other)
    finally show ?thesis by simp
  qed
qed

lemma nodes_updateAnimation:
  "analyser s \<Longrightarrow>
   nodes (updateAnimation s now dataArray raf) =
     foldl (animate_el (config s)
              (smoothedAmplitude (updateAnimation s now dataArray raf))
              (now - num_of (startTime (updateAnimation s now dataArray raf)))
              (jadd (Some (dynamicLerpMin (config s)))
                    (jmul (smoothedAmplitude (updateAnimation s now dataArray raf))
                          (Some (dynamicLerpAudioMultiplier (config s))))))
       (nodes s) (voiceEls s)"
  by (simp add: updateAnimation_def Let_def)

lemma startTime_updateAnimation:
  "analyser s \<Longrightarrow>
   startTime (updateAnimation s now dataArray raf) =
     (if falsy (lastFrameTime s) \<or> now - num_of (lastFrameTime s) > MAX_DELTA
      then Some now else startTime s)"
  by (simp add: updateAnimation_def Let_def num_of_def MAX_DELTA_def)

text \<open>
  Claim C3. In a frame, every bound element (the element list holds each node once) is
  moved by \<open>lerp(current, target, lerpFactor)\<close> with
  \<open>targetRotation = offset + effectiveTime * speed / rotationDivisor + smoothed * maxAdditionalRotation\<close>,
  \<open>targetScale = 1 + smoothed * scaleMultiplier * baseScaleMultiplier\<close> and
  \<open>lerpFactor = dynamicLerpMin + smoothed * dynamicLerpAudioMultiplier\<close>, where
  \<open>smoothed\<close> is the smoothed amplitude of this frame, \<open>effectiveTime\<close> is the time
  since the session's start time, and \<open>lerp(a, b, t) = a + t * (b - a)\<close>.
\<close>

theorem C3_motion_mapper:
  assumes "analyser s" and "distinct (voiceEls s)" and "r \<in> set (voiceEls s)"
    and "dataset_offset (nodes s r) = Some offset"
    and "dataset_speed (nodes s r) = Some speed"
    and "dataset_scaleMultiplier (nodes s r) = Some scaleMultiplier"
    and "currentRotation (nodes s r) = Some rotation"
    and "currentScale (nodes s r) = Some scale"
    and "baseRotationDivisor (config s) \<noteq> 0"
    and "smoothedAmplitude (updateAnimation s now dataArray raf) = Some smoothed"
  shows "(let s' = updateAnimation s now dataArray raf;
              effectiveTime = now - num_of (startTime s');
              targetRotation = offset + effectiveTime * speed / baseRotationDivisor (config s)
                                 + smoothed * maxAdditionalRotation (config s);
              targetScale = 1 + smoothed * scaleMultiplier * baseScaleMultiplier (config s);
              lerpFactor = dynamicLerpMin (config s) + smoothed * dynamicLerpAudioMultiplier (config s)
          in currentRotation (nodes s' r) = Some (rotation + lerpFactor * (targetRotation - rotation))
           \<and> currentScale (nodes s' r) = Some (scale + lerpFactor * (targetScale - scale))
           \<and> lerp (Some rotation) (Some targetRotation) (Some lerpFactor)
               = Some (rotation + lerpFactor * (targetRotation - rotation)))"
proof -
  let ?s' = "updateAnimation s now dataArray raf"
  have n: "nodes ?s' r =
      animate_el (config s) (Some smoothed) (now - num_of (startTime ?s'))
        (jadd (Some (dynamicLerpMin (config s))) (jmul (Some smoothed) (Some (dynamicLerpAudioMultiplier (config s)))))
        (nodes s) r r"
    using assms(1,2,3,10) by (simp add: nodes_updateAnimation foldl_animate_distinct)
  show ?thesis
    using assms(4-9)
    by (simp add: n animate_el_same Let_def lerp_def jadd_def jmul_def jsub_def jdiv_def)
qed

theorem C3_motion_mapper_witness:
  "currentRotation (nodes (updateAnimation capturing0 16 [128, 128] 7) 2) = Some (3 / 5)
   \<and> currentScale (nodes (updateAnimation capturing0 16 [128, 128] 7) 2) = Some 1"
proof -
  have cfg: "config capturing0 = default_config"
    by (simp add: capturing0_def idle0_def VoiceChat_def)
  have h1: "analyser capturing0" by (simp add: capturing0_def)
  have h2: "distinct (voiceEls capturing0)" by (simp add: capturing0_def)
  have h3: "2 \<in> set (voiceEls capturing0)" by (simp add: capturing0_def)
  have h4: "dataset_offset (nodes capturing0 2) = Some 10" by (simp add: capturing0_def el1_def)
  have h5: "dataset_speed (nodes capturing0 2) = Some 2" by (simp add: capturing0_def el1_def)
  have h6: "dataset_scaleMultiplier (nodes capturing0 2) = Some (3 / 2)" by (simp add: capturing0_def el1_def)
  have h7: "currentRotation (nodes capturing0 2) = Some 0" by (simp add: capturing0_def el1_def)
  have h8: "currentScale (nodes capturing0 2) = Some 1" by (simp add: capturing0_def el1_def)
  have h9: "baseRotationDivisor (config capturing0) \<noteq> 0" by (simp add: cfg default_config_def)
  have sm0: "smoothedAmplitude capturing0 = Some 0" by (simp add: capturing0_def idle0_def VoiceChat_def)
  have h10: "smoothedAmplitude (updateAnimation capturing0 16 [128, 128] 7) = Some 0"
    using h1 sm0 by (simp add: smoothed_updateAnimation amplitudeNormalized_def jdiv_def jadd_def jmul_def)
  have st: "startTime (updateAnimation capturing0 16 [128, 128] 7) = Some 0"
    using h1 by (simp add: startTime_updateAnimation) (simp add: capturing0_def falsy_def num_of_def MAX_DELTA_def)
  show ?thesis
    using C3_motion_mapper [OF h1 h2 h3 h4 h5 h6 h7 h8 h9 h10]
    by (simp add: Let_def st cfg default_config_def num_of_def)
qed

subsection \<open>Binding mid-session\<close>

lemma init_el_running:
  assumes "audioStarted s" and "startTime s = Some st" and "smoothedAmplitude s = Some sm"
    and "baseRotationDivisor (config s) \<noteq> 0"
  shows "\<exists>offset speed scaleMultiplier.
           dataset_offset (init_el s now rnd k el) = Some offset
         \<and> dataset_speed (init_el s now rnd k el) = Some speed
         \<and> dataset_scaleMultiplier (init_el s now rnd k el) = Some scaleMultiplier
         \<and> currentRotation (init_el s now rnd k el)
             = Some (offset + (now - st) * speed / baseRotationDivisor (config s)
                       + sm * maxAdditionalRotation (config s))
         \<and> currentScale (init_el s now rnd k el)
             = Some (1 + sm * scaleMultiplier * baseScaleMultiplier (config s))"
  using assms by (simp add: init_el_def Let_def num_of_def jadd_def jmul_def jdiv_def)

text \<open>
  Claim C4. An element bound while audio is running starts at the values predicted for
  the moment of binding: its rotation is
  \<open>offset + effectiveTime * speed / rotationDivisor + smoothed * maxAdditionalRotation\<close>
  and its scale \<open>1 + smoothed * scaleMultiplier * baseScaleMultiplier\<close>, with its own
  fresh random parameters, so that a frame of the motion mapper at that time and
  amplitude would not move it. With amplitude 0, effective time 0 and offset 10 the
  rotation is exactly 10.
\<close>

theorem C4_bind_mid_session:
  assumes "audioStarted s" and "startTime s = Some st" and "smoothedAmplitude s = Some sm"
    and "baseRotationDivisor (config s) \<noteq> 0"
    and "r \<in> set (q_voiceEls q)" and "\<not> initialized (nodes s r)"
  shows "\<exists>offset speed scaleMultiplier.
           (let el = nodes (initElements s q now rnd) r;
                effectiveTime = now - st;
                predictedRotation = offset + effectiveTime * speed / baseRotationDivisor (config s)
                                      + sm * maxAdditionalRotation (config s);
                predictedScale = 1 + sm * scaleMultiplier * baseScaleMultiplier (config s)
            in initialized el
             \<and> dataset_offset el = Some offset
             \<and> dataset_speed el = Some speed
             \<and> dataset_scaleMultiplier el = Some scaleMultiplier
             \<and> currentRotation el = Some predictedRotation
             \<and> currentScale el = Some predictedScale
             \<and> animate_el (config s) (Some sm) effectiveTime (Some f) (nodes (initElements s q now rnd)) r
                 = nodes (initElements s q now rnd)
             \<and> (sm = 0 \<and> effectiveTime = 0 \<and> offset = 10 \<longrightarrow> currentRotation el = Some 10))"
proof -
  let ?s1 = "s\<lparr> toggleBtn := q_toggleBtn q, endBtn := q_endBtn q,
           micStatus := q_micStatus q, micDevice := q_micDevice q, voiceEls := q_voiceEls q \<rparr>"
  have "\<exists>k'. init_loop ?s1 now rnd 0 (nodes s) (q_voiceEls q) r = init_el ?s1 now rnd k' (nodes s r)"
    using assms(5,6) by (rule init_loop_fresh)
  then obtain k' where k': "nodes (initElements s q now rnd) r = init_el ?s1 now rnd k' (nodes s r)"
    by (auto simp: nodes_initElements)
  have a: "audioStarted ?s1" "startTime ?s1 = Some st" "smoothedAmplitude ?s1 = Some sm"
    "baseRotationDivisor (config ?s1) \<noteq> 0"
    using assms(1-4) by simp_all
  obtain offset speed scaleMultiplier where e:
    "dataset_offset (init_el ?s1 now rnd k' (nodes s r)) = Some offset"
    "dataset_speed (init_el ?s1 now rnd k' (nodes s r)) = Some speed"
    "dataset_scaleMultiplier (init_el ?s1 now rnd k' (nodes s r)) = Some scaleMultiplier"
    "currentRotation (init_el ?s1 now rnd k' (nodes s r))
       = Some (offset + (now - st) * speed / baseRotationDivisor (config s)
                 + sm * maxAdditionalRotation (config s))"
    "currentScale (init_el ?s1 now rnd k' (nodes s r))
       = Some (1 + sm * scaleMultiplier * baseScaleMultiplier (config s))"
    using init_el_running [OF a, of now rnd k' "nodes s r"] by auto
  have stable: "animate_el (config s) (Some sm) (now - st) (Some f) (nodes (initElements s q now rnd)) r
               = nodes (initElements s q now rnd)"
  proof
    fix x
    show "animate_el (config s) (Some sm) (now - st) (Some f) (nodes (initElements s q now rnd)) r x
            = nodes (initElements s q now rnd) x"
    proof (cases "x = r")
      case True
      then show ?thesis
        using assms(4) e
        by (simp add: animate_el_same k' lerp_def jadd_def jmul_def jsub_def jdiv_def)
    next
      case False
      then show ?thesis by (simp add: animate_el_other)
    qed
  qed
  show ?thesis
    apply (rule exI [of _ offset], rule exI [of _ speed], rule exI [of _ scaleMultiplier])
    using e stable by (auto simp: Let_def k' initialized_init_el)
qed

theorem C4_bind_mid_session_witness:
  "dataset_offset (nodes (initElements (capturing0\<lparr> startTime := Some 1000 \<rparr>) query1 1000 (\<lambda>_. 1 / 36)) 0) = Some 10
   \<and> currentRotation (nodes (initElements (capturing0\<lparr> startTime := Some 1000 \<rparr>) query1 1000 (\<lambda>_. 1 / 36)) 0) = Some 10"
proof -
  let ?s = "capturing0\<lparr> startTime := Some 1000 \<rparr>"
  let ?el = "nodes (initElements ?s query1 1000 (\<lambda>_. 1 / 36)) 0"
  have h1: "audioStarted ?s" by (simp add: capturing0_def)
  have h2: "startTime ?s = Some 1000" by simp
  have h3: "smoothedAmplitude ?s = Some 0" by (simp add: capturing0_def idle0_def VoiceChat_def)
  have h4: "baseRotationDivisor (config ?s) \<noteq> 0"
    by (simp add: capturing0_def idle0_def VoiceChat_def default_config_def)
  have h5: "0 \<in> set (q_voiceEls query1)" by (simp add: query1_def)
  have h6: "\<not> initialized (nodes ?s 0)" by (simp add: capturing0_def page0_def el0_def)
  have off: "dataset_offset ?el = Some 10"
    using h6 by (simp add: nodes_initElements query1_def init_el_def Let_def toFixed0_def)
  from C4_bind_mid_session [OF h1 h2 h3 h4 h5 h6, of 1000 "\<lambda>_. 1 / 36" 2]
  obtain offset where "dataset_offset ?el = Some offset"
    and "offset = 10 \<longrightarrow> currentRotation ?el = Some 10"
    by (auto simp: Let_def)
  with off show ?thesis by simp
qed

subsection \<open>Toggling the microphone\<close>

lemma isMicOn_toggleMic:
  "isMicOn (fst (toggleMic s ts)) =
     (if mediaRecorder s \<noteq> None \<or> (\<exists>tracks. audioStream s = Some tracks \<and> tracks \<noteq> [])
      then \<not> isMicOn s else isMicOn s)"
  by (auto simp: toggleMic_def Let_def updateMicDisplay_def split: option.splits)

lemma mediaRecorder_toggleMic:
  "mediaRecorder (fst (toggleMic s ts)) =
     (case mediaRecorder s of
        None \<Rightarrow> None
      | Some r \<Rightarrow>
          Some (if isMicOn s then (if rstate r = Recording then rec_pause r else r)
                else (if rstate r = Paused then rec_resume r else r)))"
  by (auto simp: toggleMic_def Let_def updateMicDisplay_def split: option.splits)

lemma audioStream_toggleMic:
  "(\<exists>tracks. audioStream (fst (toggleMic s ts)) = Some tracks \<and> tracks \<noteq> [])
     = (\<exists>tracks. audioStream s = Some tracks \<and> tracks \<noteq> [])"
  by (auto simp: toggleMic_def Let_def updateMicDisplay_def set_enabled_def split: option.splits)

lemma mediaRecorder_toggleMic_None:
  "(mediaRecorder (fst (toggleMic s ts)) = None) = (mediaRecorder s = None)"
  by (simp add: mediaRecorder_toggleMic split: option.splits)

text \<open>
  Claim C6. Two calls of \<^verbatim>\<open>toggleMic\<close> in succession return the mic-enabled flag to its
  original value. With a recorder, the two calls only append to the recorder's call log
  a \<^verbatim>\<open>pause\<close> invoked in state \<open>recording\<close> and a \<^verbatim>\<open>resume\<close> invoked in state \<open>paused\<close>
  (never a call in another state); from an unmuted, recording session the log grows by
  exactly one pause and one resume and the recorder is recording again, and
  symmetrically from a muted, paused one.
\<close>

theorem C6_toggleMic_twice:
  "isMicOn (fst (toggleMic (fst (toggleMic s ts1)) ts2)) = isMicOn s
   \<and> (mediaRecorder s = Some r \<longrightarrow>
        (\<exists>r2 new. mediaRecorder (fst (toggleMic (fst (toggleMic s ts1)) ts2)) = Some r2
           \<and> calls r2 = calls r @ new
           \<and> (\<forall>c\<in>set new. (fst c = CallPause \<longrightarrow> snd c = Recording)
                         \<and> (fst c = CallResume \<longrightarrow> snd c = Paused))
           \<and> (isMicOn s \<and> rstate r = Recording \<longrightarrow>
                 new = [(CallPause, Recording), (CallResume, Paused)] \<and> rstate r2 = Recording)
           \<and> (\<not> isMicOn s \<and> rstate r = Paused \<longrightarrow>
                 new = [(CallResume, Paused), (CallPause, Recording)] \<and> rstate r2 = Paused)))"
proof (intro conjI impI)
  show "isMicOn (fst (toggleMic (fst (toggleMic s ts1)) ts2)) = isMicOn s"
    by (simp add: isMicOn_toggleMic mediaRecorder_toggleMic_None audioStream_toggleMic)
next
  assume r: "mediaRecorder s = Some r"
  show "\<exists>r2 new. mediaRecorder (fst (toggleMic (fst (toggleMic s ts1)) ts2)) = Some r2
           \<and> calls r2 = calls r @ new
           \<and> (\<forall>c\<in>set new. (fst c = CallPause \<longrightarrow> snd c = Recording)
                         \<and> (fst c = CallResume \<longrightarrow> snd c = Paused))
           \<and> (isMicOn s \<and> rstate r = Recording \<longrightarrow>
                 new = [(CallPause, Recording), (CallResume, Paused)] \<and> rstate r2 = Recording)
           \<and> (\<not> isMicOn s \<and> rstate r = Paused \<longrightarrow>
                 new = [(CallResume, Paused), (CallPause, Recording)] \<and> rstate r2 = Paused)"
  proof (cases "isMicOn s")
    case True
    show ?thesis
      using r True
      by (cases "rstate r")
         (simp_all add: mediaRecorder_toggleMic isMicOn_toggleMic rec_pause_def rec_resume_def)
  next
    case False
    show ?thesis
      using r False
      by (cases "rstate r")
         (simp_all add: mediaRecorder_toggleMic isMicOn_toggleMic rec_pause_def rec_resume_def)
  qed
qed

theorem C6_toggleMic_twice_witness:
  "isMicOn (fst (toggleMic (fst (toggleMic recording0 1)) 2)) = isMicOn recording0
   \<and> (\<exists>r2. mediaRecorder (fst (toggleMic (fst (toggleMic recording0 1)) 2)) = Some r2
         \<and> calls r2 = [(CallStart, Inactive), (CallPause, Recording), (CallResume, Paused)]
         \<and> rstate r2 = Recording)"
proof -
  let ?r = "\<lparr> rstate = Recording, calls = [(CallStart, Inactive)], onstop_set = False \<rparr>"
  have h1: "mediaRecorder recording0 = Some ?r"
    by (simp add: recording0_def initAudio_granted_def Let_def rec_start_def)
  have h2: "isMicOn recording0 \<and> rstate ?r = Recording"
    by (simp add: recording0_def initAudio_granted_def Let_def updateAnimation_def
        updateMicDisplay_def idle0_def VoiceChat_def)
  from C6_toggleMic_twice [of recording0 1 2 ?r] h1 h2 show ?thesis
    by auto
qed

text \<open>
  Claim C10. With no recorder and no audio stream that has a track, \<^verbatim>\<open>toggleMic\<close> does
  not flip the mic-enabled flag, and it still emits, through the \<^verbatim>\<open>onToggle\<close> callback,
  a toggleMic notification that carries the unchanged flag. The session's own state is
  unchanged: the call only renders the unchanged flag again on the display nodes the
  session points to, the CSS classes of the toggle button and (lib variant) the status
  text, and a session whose display already shows the flag is returned as it was.
\<close>

theorem C10_toggleMic_without_source:
  assumes "mediaRecorder s = None" and "audioStream s = None \<or> audioStream s = Some []"
  shows "isMicOn (fst (toggleMic s ts)) = isMicOn s
       \<and> snd (toggleMic s ts) = fire (onToggle s) (ToggleMicEvent ts (isMicOn s) ''Microphone toggled'')
       \<and> (onToggle s \<longrightarrow> snd (toggleMic s ts) = [ToggleMicEvent ts (isMicOn s) ''Microphone toggled''])
       \<and> fst (toggleMic s ts) =
           s\<lparr> toggleBtn := map_option (\<lambda>b. b\<lparr> is_on := isMicOn s, is_off := \<not> isMicOn s \<rparr>) (toggleBtn s),
              micStatus := map_option (\<lambda>_. statusText (isMicOn s)) (micStatus s) \<rparr>
       \<and> ((\<forall>b. toggleBtn s = Some b \<longrightarrow> is_on b = isMicOn s \<and> is_off b = (\<not> isMicOn s))
            \<and> (\<forall>txt. micStatus s = Some txt \<longrightarrow> txt = statusText (isMicOn s))
            \<longrightarrow> fst (toggleMic s ts) = s)"
proof -
  have st: "fst (toggleMic s ts) = updateMicDisplay s"
    and ev: "snd (toggleMic s ts) = fire (onToggle s) (ToggleMicEvent ts (isMicOn s) ''Microphone toggled'')"
    using assms by (auto simp: toggleMic_def Let_def updateMicDisplay_def)
  have same: "updateMicDisplay s = s"
    if "\<forall>b. toggleBtn s = Some b \<longrightarrow> is_on b = isMicOn s \<and> is_off b = (\<not> isMicOn s)"
      and "\<forall>txt. micStatus s = Some txt \<longrightarrow> txt = statusText (isMicOn s)"
  proof -
    have b: "map_option (\<lambda>b. b\<lparr> is_on := isMicOn s, is_off := \<not> isMicOn s \<rparr>) (toggleBtn s) = toggleBtn s"
      using that(1) by (cases "toggleBtn s") auto
    have m: "map_option (\<lambda>_. statusText (isMicOn s)) (micStatus s) = micStatus s"
      using that(2) by (cases "micStatus s") auto
    show ?thesis by (simp add: updateMicDisplay_def b m)
  qed
  show ?thesis
    using same by (simp add: st ev updateMicDisplay_def fire_def)
qed

theorem C10_toggleMic_without_source_witness:
  "toggleMic (idle0\<lparr> onToggle := True, toggleBtn := Some btn0, micStatus := Some ''Voice Chat Ended'' \<rparr>) 5 =
     (idle0\<lparr> onToggle := True, toggleBtn := Some (btn0\<lparr> is_on := True \<rparr>),
             micStatus := Some ''Turn off microphone'' \<rparr>,
      [ToggleMicEvent 5 True ''Microphone toggled''])"
proof -
  let ?s = "idle0\<lparr> onToggle := True, toggleBtn := Some btn0, micStatus := Some ''Voice Chat Ended'' \<rparr>"
  have h1: "mediaRecorder ?s = None" by (simp add: idle0_def VoiceChat_def)
  have h2: "audioStream ?s = None \<or> audioStream ?s = Some []" by (simp add: idle0_def VoiceChat_def)
  have m: "isMicOn idle0" by (simp add: idle0_def VoiceChat_def)
  have "fst (toggleMic ?s 5) =
          idle0\<lparr> onToggle := True, toggleBtn := Some (btn0\<lparr> is_on := True \<rparr>),
                  micStatus := Some ''Turn off microphone'' \<rparr>
        \<and> snd (toggleMic ?s 5) = [ToggleMicEvent 5 True ''Microphone toggled'']"
    using C10_toggleMic_without_source [OF h1 h2, of 5] m by (simp add: btn0_def statusText_def fire_def)
  then show ?thesis by (simp add: prod_eq_iff)
qed

subsection \<open>Ending a session\<close>







subsection \<open>Post-session analyzer\<close>

lemma channel_sum_acc: "channel_sum a xs = a + (\<Sum>x\<leftarrow>xs. \<bar>x\<bar>)"
  by (induction xs arbitrary: a) simp_all

lemma sum_list_abs_const:
  "\<forall>x\<in>set xs. \<bar>x\<bar> = (c::real) \<Longrightarrow> (\<Sum>x\<leftarrow>xs. \<bar>x\<bar>) = real (length xs) * c"
  by (induction xs) (simp_all add: algebra_simps)

lemma analyzeAudio_decoded:
  assumes "readAsArrayBuffer h clip = Inr arrayBuffer"
    and "newOfflineContext h (length arrayBuffer) = None"
    and "decodeAudioData h arrayBuffer = Inr audioBuffer"
    and "channel0 audioBuffer \<noteq> []"
  shows "analyzeAudio h clip =
           Inr \<lparr> isMostlySilence =
                   ((\<Sum>x\<leftarrow>channel0 audioBuffer. \<bar>x\<bar>) / real (length (channel0 audioBuffer)) < 2 / 100),
                 avgAmplitude =
                   Some ((\<Sum>x\<leftarrow>channel0 audioBuffer. \<bar>x\<bar>) / real (length (channel0 audioBuffer))) \<rparr>"
  using assms by (simp add: analyzeAudio_def Let_def jdiv_def channel_sum_acc)

text \<open>
  Claim C8. For a clip that decodes to a buffer whose first channel holds the (at least
  one) samples, the analyzer resolves with \<open>avgAmplitude\<close> the mean absolute sample and
  \<open>isMostlySilence\<close> true exactly when that mean is below 0.02. All-zero samples give
  \<open>avgAmplitude = 0\<close> and \<open>isMostlySilence = true\<close>; samples alternating \<open>+0.5\<close>,
  \<open>-0.5\<close> give \<open>avgAmplitude = 0.5\<close> and \<open>isMostlySilence = false\<close>.
\<close>

theorem C8_analyzer:
  assumes "readAsArrayBuffer h clip = Inr arrayBuffer"
    and "newOfflineContext h (length arrayBuffer) = None"
    and "decodeAudioData h arrayBuffer = Inr audioBuffer"
    and "channel0 audioBuffer = samples" and "samples \<noteq> []"
  shows "analyzeAudio h clip =
           Inr \<lparr> isMostlySilence = ((\<Sum>x\<leftarrow>samples. \<bar>x\<bar>) / real (length samples) < 2 / 100),
                 avgAmplitude = Some ((\<Sum>x\<leftarrow>samples. \<bar>x\<bar>) / real (length samples)) \<rparr>
       \<and> (samples = replicate (length samples) 0 \<longrightarrow>
            analyzeAudio h clip = Inr \<lparr> isMostlySilence = True, avgAmplitude = Some 0 \<rparr>)
       \<and> (samples = map (\<lambda>i. if even i then 1 / 2 else - (1 / 2)) [0..<length samples] \<longrightarrow>
            analyzeAudio h clip = Inr \<lparr> isMostlySilence = False, avgAmplitude = Some (1 / 2) \<rparr>)"
proof (intro conjI impI)
  have ne: "channel0 audioBuffer \<noteq> []" using assms(4,5) by simp
  have len: "real (length samples) \<noteq> 0" using assms(5) by simp
  show main: "analyzeAudio h clip =
           Inr \<lparr> isMostlySilence = ((\<Sum>x\<leftarrow>samples. \<bar>x\<bar>) / real (length samples) < 2 / 100),
                 avgAmplitude = Some ((\<Sum>x\<leftarrow>samples. \<bar>x\<bar>) / real (length samples)) \<rparr>"
    using analyzeAudio_decoded [OF assms(1,2,3) ne] assms(4) by simp
  {
    assume z: "samples = replicate (length samples) 0"
    have "\<forall>x\<in>set samples. \<bar>x\<bar> = 0" by (subst z) simp
    then have "(\<Sum>x\<leftarrow>samples. \<bar>x\<bar>) = real (length samples) * 0" by (rule sum_list_abs_const)
    then show "analyzeAudio h clip = Inr \<lparr> isMostlySilence = True, avgAmplitude = Some 0 \<rparr>"
      by (simp add: main)
  }
  {
    assume a: "samples = map (\<lambda>i. if even i then 1 / 2 else - (1 / 2)) [0..<length samples]"
    have "\<forall>x\<in>set samples. \<bar>x\<bar> = 1 / 2" by (subst a) auto
    then have "(\<Sum>x\<leftarrow>samples. \<bar>x\<bar>) = real (length samples) * (1 / 2)" by (rule sum_list_abs_const)
    then show "analyzeAudio h clip = Inr \<lparr> isMostlySilence = False, avgAmplitude = Some (1 / 2) \<rparr>"
      using len by (simp add: main)
  }
qed

theorem C8_analyzer_witness:
  "analyzeAudio host_half [1, 2, 3] = Inr \<lparr> isMostlySilence = False, avgAmplitude = Some (1 / 2) \<rparr>"
proof -
  let ?samples = "[1 / 2, - (1 / 2), 1 / 2, - (1 / 2)] :: real list"
  have h1: "readAsArrayBuffer host_half [1, 2, 3] = Inr [1, 2, 3]" by (simp add: host_half_def)
  have h2: "newOfflineContext host_half (length [1, 2, 3 :: u8]) = None" by (simp add: host_half_def)
  have h3: "decodeAudioData host_half [1, 2, 3] = Inr (AudioBuffer ?samples [])" by (simp add: host_half_def)
  have h4: "channel0 (AudioBuffer ?samples []) = ?samples" by simp
  have h5: "?samples \<noteq> []" by simp
  have alt: "?samples = map (\<lambda>i. if even i then 1 / 2 else - (1 / 2)) [0..<length ?samples]"
    by (simp add: upt_rec)
  from C8_analyzer [OF h1 h2 h3 h4 h5] alt show ?thesis by blast
qed

subsection \<open>Reset\<close>

lemma reset_common_fields:
  "recordedChunks (reset_common s) = [] \<and> isMicOn (reset_common s)
   \<and> startTime (reset_common s) = None \<and> lastFrameTime (reset_common s) = None
   \<and> \<not> audioStarted (reset_common s)"
  by (simp add: reset_common_def Let_def split: option.splits)

lemma initElements_fields:
  "audioStarted (initElements s q now rnd) = audioStarted s
   \<and> recordedChunks (initElements s q now rnd) = recordedChunks s"
  by (simp add: initElements_def Let_def updateMicDisplay_def)

lemma initAudio_granted_times:
  "startTime (initAudio_granted s stream t0 now dataArray raf cap)
     = Some (if t0 = 0 \<or> now - t0 > MAX_DELTA then now else t0)
   \<and> lastFrameTime (initAudio_granted s stream t0 now dataArray raf cap) = Some now"
  by (cases cap)
     (simp_all add: initAudio_granted_def Let_def updateAnimation_def updateMicDisplay_def
        falsy_def num_of_def MAX_DELTA_def)

text \<open>
  Claim C9. After \<^verbatim>\<open>reset()\<close> (either variant, from any state) the buffered fragments are
  empty, the mic-enabled flag is true and start time and last-frame time are cleared. A
  \<^verbatim>\<open>start()\<close> that follows requests the microphone, and once access is granted the
  start time is one of the two clock readings taken then (the first one, or the first
  frame's if the first reading is 0 or more than \<open>MAX_DELTA\<close> older) and the last-frame
  time is the first frame's reading: neither depends on the session before the reset.
\<close>

theorem C9_reset:
  "recordedChunks (reset_lib s) = [] \<and> isMicOn (reset_lib s)
   \<and> startTime (reset_lib s) = None \<and> lastFrameTime (reset_lib s) = None
   \<and> recordedChunks (reset_part s) = [] \<and> isMicOn (reset_part s)
   \<and> startTime (reset_part s) = None \<and> lastFrameTime (reset_part s) = None
   \<and> snd (start (reset_lib s) q now rnd)
   \<and> snd (start (reset_part s) q now rnd)
   \<and> startTime (initAudio_granted (fst (start (reset_lib s) q now rnd)) stream t0 now' dataArray raf cap)
       = Some (if t0 = 0 \<or> now' - t0 > MAX_DELTA then now' else t0)
   \<and> startTime (initAudio_granted (fst (start (reset_part s) q now rnd)) stream t0 now' dataArray raf cap)
       = Some (if t0 = 0 \<or> now' - t0 > MAX_DELTA then now' else t0)
   \<and> lastFrameTime (initAudio_granted (fst (start (reset_lib s) q now rnd)) stream t0 now' dataArray raf cap)
       = Some now'
   \<and> lastFrameTime (initAudio_granted (fst (start (reset_part s) q now rnd)) stream t0 now' dataArray raf cap)
       = Some now'"
proof -
  have lib: "recordedChunks (reset_lib s) = [] \<and> isMicOn (reset_lib s)
      \<and> startTime (reset_lib s) = None \<and> lastFrameTime (reset_lib s) = None
      \<and> \<not> audioStarted (reset_lib s)"
    using reset_common_fields [of s] by (simp add: reset_lib_def Let_def)
  have part: "recordedChunks (reset_part s) = [] \<and> isMicOn (reset_part s)
      \<and> startTime (reset_part s) = None \<and> lastFrameTime (reset_part s) = None
      \<and> \<not> audioStarted (reset_part s)"
    using reset_common_fields [of s] by (simp add: reset_part_def Let_def)
  have st: "snd (start s' q now rnd) = (\<not> audioStarted s')" for s'
    by (simp add: start_def Let_def initElements_fields observeDOM_def)
  show ?thesis
    using lib part by (simp add: st initAudio_granted_times)
qed

end
